theory Spec2Isabelle
  imports Main "HOL-Library.List_Lexorder" "HOL-Library.Char_ord" "HOL-Library.Sublist"
begin

section \<open>Byte strings\<close>

text \<open>
  Header names, header values, paths and bodies are byte strings (\<open>string\<close>).
  Header names are compared byte-case-insensitively: the bytes 0x41 to 0x5A (A to Z)
  are lowered by adding 0x20, every other byte is kept.
\<close>

definition lower_char :: "char \<Rightarrow> char" where
  "lower_char c =
     (let n = (of_char c :: nat) in if 65 \<le> n \<and> n \<le> 90 then char_of (n + 32) else c)"

definition lower :: "string \<Rightarrow> string" where
  "lower s = map lower_char s"

text \<open>
  A header value is normalized when it is stored with \<open>set\<close> or \<open>append\<close>: leading and
  trailing HTTP whitespace bytes (tab, line feed, carriage return, space) are removed.
\<close>

definition http_whitespace :: "char \<Rightarrow> bool" where
  "http_whitespace c = (c = CHR 0x09 \<or> c = CHR 0x0A \<or> c = CHR 0x0D \<or> c = CHR 0x20)"

definition normalize_value :: "string \<Rightarrow> string" where
  "normalize_value v = rev (dropWhile http_whitespace (rev (dropWhile http_whitespace v)))"

section \<open>The Headers object of the platform\<close>

text \<open>
  \<open>Headers\<close> is a class of the runtime, not of this repository. It is modelled by its header
  list, an ordered list of name/value pairs in which a name may occur several times, with
  the operations the handler calls, as the Fetch standard defines them and the deployed
  runtime (Deno) implements them; where the two differ, the runtime is followed:
  \<^item> \<open>get\<close> returns the values of all headers of that name, joined with a comma and a space,
    or nothing when there is none;
  \<^item> \<open>set\<close> overwrites the first header of that name and removes the others, or appends;
  \<^item> \<open>append\<close> adds a header at the end, spelling the name as its first occurrence does;
  \<^item> \<open>delete\<close> removes every header of that name;
  \<^item> iteration (\<open>keys\<close>, and the copy made by \<open>new Headers(h)\<close>) goes over the names
    lowercased, without duplicates and sorted, each with its values combined into one; only
    \<open>set-cookie\<close> is given once per value. The runtime combines the values of a name one
    by one: a value is joined with a comma and a space to what has been combined before it
    when that is not empty, and replaces it when it is empty. This is the join of \<open>get\<close>
    unless a value other than the last is empty.
  Names and values that are read from one Headers object are valid for another, so the
  validation that \<open>set\<close> and \<open>append\<close> perform cannot fail here and is not modelled.
\<close>

type_synonym header = "string \<times> string"
type_synonym headers = "header list"

definition named :: "string \<Rightarrow> header \<Rightarrow> bool" where
  "named n h = (lower (fst h) = lower n)"

definition values_of :: "headers \<Rightarrow> string \<Rightarrow> string list" where
  "values_of hs n = map snd (filter (named n) hs)"

fun join_values :: "string list \<Rightarrow> string" where
  "join_values [] = []"
| "join_values [v] = v"
| "join_values (v # w # vs) = v @ '', '' @ join_values (w # vs)"

definition get_h :: "headers \<Rightarrow> string \<Rightarrow> string option" where
  "get_h hs n = (case values_of hs n of [] \<Rightarrow> None | v # vs \<Rightarrow> Some (join_values (v # vs)))"

definition append_h :: "headers \<Rightarrow> string \<Rightarrow> string \<Rightarrow> headers" where
  "append_h hs n v =
     (case filter (named n) hs of
        [] \<Rightarrow> hs @ [(n, normalize_value v)]
      | h # _ \<Rightarrow> hs @ [(fst h, normalize_value v)])"

fun set_in :: "headers \<Rightarrow> string \<Rightarrow> string \<Rightarrow> headers" where
  "set_in [] n v = [(n, v)]"
| "set_in (h # hs) n v =
     (if named n h then (fst h, v) # filter (\<lambda>h'. \<not> named n h') hs
      else h # set_in hs n v)"

definition set_h :: "headers \<Rightarrow> string \<Rightarrow> string \<Rightarrow> headers" where
  "set_h hs n v = set_in hs n (normalize_value v)"

definition delete_h :: "headers \<Rightarrow> string \<Rightarrow> headers" where
  "delete_h hs n = filter (\<lambda>h. \<not> named n h) hs"

definition names_h :: "headers \<Rightarrow> string list" where
  "names_h hs = sort (remdups (map (\<lambda>h. lower (fst h)) hs))"

fun iteration_value :: "string \<Rightarrow> string list \<Rightarrow> string" where
  "iteration_value entryValue [] = entryValue"
| "iteration_value entryValue (v # vs) =
     iteration_value (if entryValue \<noteq> [] then entryValue @ '', '' @ v else v) vs"

definition combined :: "headers \<Rightarrow> string \<Rightarrow> headers" where
  "combined hs n =
     (if n = ''set-cookie'' then map (Pair n) (values_of hs n)
      else case values_of hs n of [] \<Rightarrow> [] | v # vs \<Rightarrow> [(n, iteration_value v vs)])"

definition sort_and_combine :: "headers \<Rightarrow> headers" where
  "sort_and_combine hs = concat (map (combined hs) (names_h hs))"

definition keys_h :: "headers \<Rightarrow> string list" where
  "keys_h hs = map fst (sort_and_combine hs)"

text \<open>
  \<open>fill\<close> is how a new Headers object is initialised, from a plain object (its entries in
  order) or from another Headers object (its iteration).
\<close>

definition fill :: "header list \<Rightarrow> headers" where
  "fill init = fold (\<lambda>h acc. append_h acc (fst h) (snd h)) init []"

definition Headers_copy :: "headers \<Rightarrow> headers" where
  "Headers_copy hs = fill (sort_and_combine hs)"

section \<open>pickHeaders\<close>

text \<open>
  A key of the list given to \<open>pickHeaders\<close> is a string, compared with \<open>===\<close>, or a regular
  expression, of which only its \<open>test\<close> is used.
\<close>

datatype key = Str string | RegExp "string \<Rightarrow> bool"

fun key_matches :: "key \<Rightarrow> string \<Rightarrow> bool" where
  "key_matches (Str k) key = (k = key)"
| "key_matches (RegExp test) key = test key"

definition pick_step :: "headers \<Rightarrow> key list \<Rightarrow> string \<Rightarrow> headers \<Rightarrow> headers" where
  "pick_step hs keys key picked =
     (if list_ex (\<lambda>k. key_matches k key) keys
      then (case get_h hs key of Some v \<Rightarrow> set_h picked key v | None \<Rightarrow> picked)
      else picked)"

definition pickHeaders :: "headers \<Rightarrow> key list \<Rightarrow> headers" where
  "pickHeaders hs keys = fold (pick_step hs keys) (keys_h hs) []"

definition allow_list :: "string list" where
  "allow_list = [''content-type'', ''x-goog-api-client'', ''x-goog-api-key'', ''authorization'']"

definition forwarded_headers :: "headers \<Rightarrow> headers" where
  "forwarded_headers hs = pickHeaders hs (map Str allow_list)"

section \<open>CORS_HEADERS\<close>

definition CORS_HEADERS :: "header list" where
  "CORS_HEADERS =
     [(''access-control-allow-origin'', ''*''),
      (''access-control-allow-methods'', ''GET, POST, PUT, DELETE, OPTIONS''),
      (''access-control-allow-headers'',
       ''Content-Type, Authorization, x-goog-api-key, x-goog-api-client'')]"

section \<open>URLs\<close>

text \<open>
  A parsed URL, as far as the handler looks at it: scheme, host (with the port, if any),
  path and the decoded query parameters in order. A failing \<open>URL\<close> constructor throws a
  \<open>TypeError\<close>, as a failing \<open>fetch\<close> does; the \<open>Response\<close> constructor throws a
  \<open>RangeError\<close> or a \<open>TypeError\<close>. The message of an error is not modelled to the letter.
\<close>

record url =
  scheme :: string
  host :: string
  pathname :: string
  searchParams :: "(string \<times> string) list"

datatype error = TypeError string | RangeError string

definition origin :: "url \<Rightarrow> string" where
  "origin u = scheme u @ ''://'' @ host u"

text \<open>The parsed base \<open>https://generativelanguage.googleapis.com\<close>.\<close>

definition upstream_base :: url where
  "upstream_base =
     \<lparr>scheme = ''https'', host = ''generativelanguage.googleapis.com'',
      pathname = ''/'', searchParams = []\<rparr>"

text \<open>
  \<open>new URL(input, base)\<close> for an input that is the \<open>pathname\<close> of a parsed http(s) URL:
  it starts with a slash, has no query or fragment, and its dot segments and escapes are
  already resolved, so parsing it again as a path changes nothing. The URL parser does not
  take such an input as a path in every case: after two leading slashes it reads an
  authority instead, which ends at the next slash, and only the rest is the path. The
  parser of the deployed runtime (Deno) reads the authority right after the two slashes,
  so a third slash makes it empty, which is an error. The parser of a non-empty authority
  belongs to the platform and is a parameter: it gives the host, or nothing when there is
  no valid one.
\<close>

definition URL_with_base :: "(string \<Rightarrow> string option) \<Rightarrow> string \<Rightarrow> url \<Rightarrow> error + url" where
  "URL_with_base authority input base =
     (if take 2 input = ''//'' then
        (let rest = drop 2 input;
             a = takeWhile (\<lambda>c. c \<noteq> CHR ''/'') rest;
             p = dropWhile (\<lambda>c. c \<noteq> CHR ''/'') rest
         in if a = [] then Inl (TypeError ''Invalid URL'')
            else
              case authority a of
                None \<Rightarrow> Inl (TypeError ''Invalid URL'')
              | Some h \<Rightarrow>
                  Inr \<lparr>scheme = scheme base, host = h,
                       pathname = (if p = [] then ''/'' else p), searchParams = []\<rparr>)
      else Inr \<lparr>scheme = scheme base, host = host base, pathname = input, searchParams = []\<rparr>)"

definition append_param :: "url \<Rightarrow> string \<Rightarrow> string \<Rightarrow> url" where
  "append_param u key v = u\<lparr>searchParams := searchParams u @ [(key, v)]\<rparr>"

text \<open>The \<open>searchParams.forEach\<close> loop of the handler.\<close>

definition copy_params :: "(string \<times> string) list \<Rightarrow> url \<Rightarrow> url" where
  "copy_params params targetUrl =
     fold (\<lambda>(key, v) t. if key \<noteq> ''_path'' then append_param t key v else t) params targetUrl"

section \<open>Streams\<close>

text \<open>
  A body stream delivers a list of chunks. The handler relays the upstream body with two
  calls of the platform, \<open>new TransformStream()\<close> and \<open>googleResponse.body.pipeTo(writable)\<close>,
  and gives the readable side to the response. What these do is the Streams standard's:
  \<^item> \<open>new TransformStream()\<close> with no arguments is the identity transform with the default
    queues. Its writable side has the high-water mark 1: it wants a chunk only while its
    queue is empty. Its readable side has the high-water mark 0: a chunk is transformed,
    that is handed from the writable to the readable side, only when the readable side
    holds none.
  \<^item> \<open>pipeTo\<close> reads the next chunk of the source only when the writable side wants one, and
    starts at once, before the response is returned.
  The state of the relay is the part of the source not yet read and the two queues; a step
  moves one chunk from one of them to the next, the last step being the client's read of
  the outbound body. The steps may interleave in any order that the queues allow, which
  covers every schedule of the runtime.
\<close>

type_synonym chunk = string

record pipe =
  source :: "chunk list"
  writable_queue :: "chunk list"
  readable_queue :: "chunk list"

definition pipeTo :: "chunk list \<Rightarrow> pipe" where
  "pipeTo chunks = \<lparr>source = chunks, writable_queue = [], readable_queue = []\<rparr>"

inductive pipe_step :: "pipe \<times> chunk list \<Rightarrow> pipe \<times> chunk list \<Rightarrow> bool" where
  pump: "source p = c # cs \<Longrightarrow> writable_queue p = [] \<Longrightarrow>
     pipe_step (p, out) (p\<lparr>source := cs, writable_queue := [c]\<rparr>, out)"
| transform: "writable_queue p = c # ws \<Longrightarrow> readable_queue p = [] \<Longrightarrow>
     pipe_step (p, out) (p\<lparr>writable_queue := ws, readable_queue := [c]\<rparr>, out)"
| read: "readable_queue p = c # rs \<Longrightarrow>
     pipe_step (p, out) (p\<lparr>readable_queue := rs\<rparr>, out @ [c])"

definition pipe_run :: "pipe \<times> chunk list \<Rightarrow> pipe \<times> chunk list \<Rightarrow> bool" where
  "pipe_run = pipe_step\<^sup>*\<^sup>*"

definition closed :: "pipe \<Rightarrow> bool" where
  "closed p = (source p = [] \<and> writable_queue p = [] \<and> readable_queue p = [])"

section \<open>Requests and responses\<close>

record request =
  http_method :: string
  url :: string
  headers :: headers
  body :: "chunk list option"

text \<open>The arguments of the one \<open>fetch\<close> call: the outbound request.\<close>

record fetch_init =
  targetUrl :: url
  init_body :: "chunk list option"
  init_method :: string
  init_headers :: headers

text \<open>What \<open>fetch\<close> resolves to (\<open>googleResponse\<close>).\<close>

record upstream_response =
  g_status :: nat
  g_statusText :: string
  g_headers :: headers
  g_body :: "chunk list option"

datatype response_body = Null | Text string | Readable pipe

record response =
  r_body :: response_body
  r_headers :: headers
  r_status :: nat
  r_statusText :: string

text \<open>
  \<open>new Response(body, {headers, status, statusText})\<close> throws
  \<^item> a \<open>RangeError\<close> for a status outside 200 to 599 (the runtime also takes 101),
  \<^item> a \<open>TypeError\<close> for a status text that is not a reason phrase (tabs, spaces and the
    bytes 0x21 to 0x7E and 0x80 to 0xFF),
  \<^item> a \<open>TypeError\<close> for a body together with a null body status (101, 204, 205, 304).
  Otherwise the headers are filled from the given entries, and a string body gets the
  content type \<open>text/plain;charset=UTF-8\<close> unless the headers name one.
\<close>

definition null_body_status :: "nat \<Rightarrow> bool" where
  "null_body_status st = (st = 101 \<or> st = 204 \<or> st = 205 \<or> st = 304)"

definition reason_phrase :: "string \<Rightarrow> bool" where
  "reason_phrase text =
     list_all (\<lambda>c. c = CHR 0x09 \<or> (32 \<le> (of_char c :: nat) \<and> (of_char c :: nat) \<noteq> 127)) text"

definition Response :: "response_body \<Rightarrow> header list \<Rightarrow> nat \<Rightarrow> string \<Rightarrow> error + response" where
  "Response b init st text =
     (if (st < 200 \<or> 599 < st) \<and> st \<noteq> 101 then Inl (RangeError ''status'')
      else if \<not> reason_phrase text then Inl (TypeError ''status text'')
      else if b \<noteq> Null \<and> null_body_status st then Inl (TypeError ''null body status'')
      else
        Inr \<lparr>r_body = b,
             r_headers =
               (let h = fill init in
                case b of
                  Text _ \<Rightarrow>
                    (if get_h h ''content-type'' = None
                     then append_h h ''content-type'' ''text/plain;charset=UTF-8'' else h)
                | _ \<Rightarrow> h),
             r_status = st, r_statusText = text\<rparr>)"

text \<open>
  The platform around the handler: the parser of \<open>new URL(request.url)\<close>, the parser of an
  authority (see \<open>URL_with_base\<close>), and \<open>fetch\<close>, which resolves to a response or rejects.
\<close>

record platform =
  parse_url :: "string \<Rightarrow> url option"
  parse_authority :: "string \<Rightarrow> string option"
  fetch :: "fetch_init \<Rightarrow> error + upstream_response"

section \<open>The handler\<close>

definition nl :: string where
  "nl = [CHR 0x0A]"

definition blank_html :: string where
  \<open>blank_html =
     nl @
     ''<!DOCTYPE html>'' @ nl @
     ''<html>'' @ nl @
     ''<head>'' @ nl @
     ''  <meta charset="UTF-8">'' @ nl @
     ''  <title>Google PaLM/Gemini API Proxy on Netlify Edge</title>'' @ nl @
     ''</head>'' @ nl @
     ''<body>'' @ nl @
     ''  <h1>Google PaLM/Gemini API Proxy on Netlify Edge</h1>'' @ nl @
     ''  <p>This is a proxy for the Google Generative Language API, deployed on Netlify Edge Functions.</p>'' @ nl @
     ''  <p>For technical details, please visit <a href="https://simonmy.com/posts/'' @
     [CHR 0xE4, CHR 0xBD, CHR 0xBF, CHR 0xE7, CHR 0x94, CHR 0xA8] @ ''netlify'' @
     [CHR 0xE5, CHR 0x8F, CHR 0x8D, CHR 0xE5, CHR 0x90, CHR 0x91, CHR 0xE4, CHR 0xBB, CHR 0xA3,
      CHR 0xE7, CHR 0x90, CHR 0x86] @
     ''google-palm-api.html">https://simonmy.com/posts/'' @
     [CHR 0xE4, CHR 0xBD, CHR 0xBF, CHR 0xE7, CHR 0x94, CHR 0xA8] @ ''netlify'' @
     [CHR 0xE5, CHR 0x8F, CHR 0x8D, CHR 0xE5, CHR 0x90, CHR 0x91, CHR 0xE4, CHR 0xBB, CHR 0xA3,
      CHR 0xE7, CHR 0x90, CHR 0x86] @
     ''google-palm-api.html</a></p>'' @ nl @
     ''</body>'' @ nl @
     ''</html>'' @ nl @
     ''    ''\<close>

text \<open>
  The response headers of a proxied request: a copy of the upstream's, then the CORS
  headers set, then three headers deleted. The relay of the body is set up before the
  response is constructed; the result is the response, or the error of its constructor.
\<close>

definition response_headers :: "headers \<Rightarrow> headers" where
  "response_headers upstream =
     (let responseHeaders = Headers_copy upstream;
          responseHeaders = fold (\<lambda>(key, v) h. set_h h key v) CORS_HEADERS responseHeaders;
          responseHeaders = delete_h responseHeaders ''content-encoding'';
          responseHeaders = delete_h responseHeaders ''content-length''
      in delete_h responseHeaders ''alt-svc'')"

definition relay :: "upstream_response \<Rightarrow> error + response" where
  "relay googleResponse =
     (let responseHeaders = response_headers (g_headers googleResponse) in
      case g_body googleResponse of
        None \<Rightarrow>
          Response Null (sort_and_combine responseHeaders)
            (g_status googleResponse) (g_statusText googleResponse)
      | Some chunks \<Rightarrow>
          Response (Readable (pipeTo chunks)) (sort_and_combine responseHeaders)
            (g_status googleResponse) (g_statusText googleResponse))"

text \<open>
  The handler returns the \<open>fetch\<close> calls it has made, in order, and its result: the
  response, or the error with which the invocation fails.
\<close>

definition handler :: "platform \<Rightarrow> request \<Rightarrow> fetch_init list \<times> (error + response)" where
  "handler pf request =
     (if http_method request = ''OPTIONS'' then ([], Response Null CORS_HEADERS 204 [])
      else
        case parse_url pf (url request) of
          None \<Rightarrow> ([], Inl (TypeError ''Invalid URL''))
        | Some u \<Rightarrow>
            if pathname u = ''/'' then
              ([], Response (Text blank_html)
                     (CORS_HEADERS @ [(''content-type'', ''text/html;charset=UTF-8'')]) 200 [])
            else
              case URL_with_base (parse_authority pf) (pathname u) upstream_base of
                Inl e \<Rightarrow> ([], Inl e)
              | Inr t \<Rightarrow>
                  (let call = \<lparr>targetUrl = copy_params (searchParams u) t,
                               init_body = body request,
                               init_method = http_method request,
                               init_headers = forwarded_headers (headers request)\<rparr>
                   in case fetch pf call of
                        Inl e \<Rightarrow> ([call], Inl e)
                      | Inr googleResponse \<Rightarrow> ([call], relay googleResponse)))"

section \<open>Outcomes and examples\<close>

text \<open>
  What an invocation that returns a response has done is read off its result: whether it
  has called \<open>fetch\<close>, and whether the response has a body.
\<close>

datatype outcome = Preflight | StaticDocument | HeadersOnly | Streamed

fun outcome_of :: "fetch_init list \<times> (error + response) \<Rightarrow> outcome option" where
  "outcome_of (calls, Inl e) = None"
| "outcome_of (calls, Inr r) =
     Some (if calls = [] then (if r_body r = Null then Preflight else StaticDocument)
           else (if r_body r = Null then HeadersOnly else Streamed))"

text \<open>The header that \<open>pickHeaders\<close> writes for a name.\<close>

definition picked_entry :: "headers \<Rightarrow> string \<Rightarrow> header" where
  "picked_entry hs n = (n, normalize_value (join_values (values_of hs n)))"

text \<open>The headers that iteration gives for one name with the values \<open>vs\<close>.\<close>

definition combine :: "string \<Rightarrow> string list \<Rightarrow> headers" where
  "combine n vs =
     (if n = ''set-cookie'' then map (Pair n) vs
      else case vs of [] \<Rightarrow> [] | v # ws \<Rightarrow> [(n, iteration_value v ws)])"

text \<open>The upstream responses for which \<open>new Response\<close> throws.\<close>

definition rejected :: "upstream_response \<Rightarrow> bool" where
  "rejected g =
     ((g_status g < 200 \<or> 599 < g_status g) \<and> g_status g \<noteq> 101 \<or>
      \<not> reason_phrase (g_statusText g) \<or>
      g_body g \<noteq> None \<and> null_body_status (g_status g))"

text \<open>
  Concrete platforms and messages. \<open>proxy_platform\<close> parses the request URL
  \<open>https://proxy.example<path>?<query>\<close> of the examples into the path and query given,
  takes \<open>evil.example\<close> as the only valid authority, and its \<open>fetch\<close> resolves to
  \<open>upstream\<close>; \<open>down_platform\<close> is the same with a \<open>fetch\<close> that rejects.
\<close>

definition parsed :: "string \<Rightarrow> (string \<times> string) list \<Rightarrow> url" where
  "parsed path query =
     \<lparr>scheme = ''https'', host = ''proxy.example'', pathname = path, searchParams = query\<rparr>"

definition example_parse_url :: "string \<Rightarrow> url option" where
  "example_parse_url s =
     (if s = ''https://proxy.example/'' then Some (parsed ''/'' [])
      else if s = ''https://proxy.example/v1beta/models?foo=1&_path=internal&bar=2&foo=3''
      then Some (parsed ''/v1beta/models''
                   [(''foo'', ''1''), (''_path'', ''internal''), (''bar'', ''2''), (''foo'', ''3'')])
      else if s = ''https://proxy.example//evil.example/v1beta/models?key=K''
      then Some (parsed ''//evil.example/v1beta/models'' [(''key'', ''K'')])
      else None)"

definition example_parse_authority :: "string \<Rightarrow> string option" where
  "example_parse_authority a = (if a = ''evil.example'' then Some a else None)"

definition example_upstream :: "chunk list option \<Rightarrow> upstream_response" where
  "example_upstream b =
     \<lparr>g_status = 404, g_statusText = ''Not Found'',
      g_headers = [(''content-encoding'', ''gzip''), (''content-length'', ''123''),
                   (''alt-svc'', ''h3=\":443\"''), (''x-custom'', ''keep''),
                   (''access-control-allow-origin'', ''https://other.example'')],
      g_body = b\<rparr>"

definition example_upstream_999 :: upstream_response where
  "example_upstream_999 =
     \<lparr>g_status = 999, g_statusText = [], g_headers = [], g_body = None\<rparr>"

definition proxy_platform :: "upstream_response \<Rightarrow> platform" where
  "proxy_platform upstream =
     \<lparr>parse_url = example_parse_url, parse_authority = example_parse_authority,
      fetch = (\<lambda>call. Inr upstream)\<rparr>"

definition down_platform :: platform where
  "down_platform =
     \<lparr>parse_url = example_parse_url, parse_authority = example_parse_authority,
      fetch = (\<lambda>call. Inl (TypeError ''fetch failed''))\<rparr>"

definition example_request :: "string \<Rightarrow> string \<Rightarrow> headers \<Rightarrow> request" where
  "example_request m u hs = \<lparr>http_method = m, url = u, headers = hs, body = None\<rparr>"

definition models_url :: string where
  "models_url = ''https://proxy.example/v1beta/models?foo=1&_path=internal&bar=2&foo=3''"

text \<open>
  Every step of the relay moves a chunk one stage further; this measure counts the moves
  that remain.
\<close>

definition pipe_measure :: "pipe \<times> chunk list \<Rightarrow> nat" where
  "pipe_measure s = 3 * length (source (fst s)) + 2 * length (writable_queue (fst s))
     + length (readable_queue (fst s))"

section \<open>Properties of the header operations\<close>

lemma lower_char_idem: "lower_char (lower_char c) = lower_char c"
  unfolding lower_char_def Let_def by (auto simp: of_char_of)

lemma lower_idem: "lower (lower s) = lower s"
  by (simp add: lower_def lower_char_idem)

lemma set_in_fresh: "\<forall>h \<in> set hs. \<not> named n h \<Longrightarrow> set_in hs n v = hs @ [(n, v)]"
  by (induction hs) auto

lemma set_in_last: "\<forall>h \<in> set hs. \<not> named n h \<Longrightarrow> set_in (hs @ [(n, w)]) n v = hs @ [(n, v)]"
  by (induction hs) (auto simp: named_def)

lemma names_h_distinct: "distinct (names_h hs)"
  by (simp add: names_h_def)

lemma names_h_iff: "n \<in> set (names_h hs) \<longleftrightarrow> (\<exists>h \<in> set hs. lower (fst h) = n)"
  by (auto simp: names_h_def)

lemma names_h_lower: "n \<in> set (names_h hs) \<Longrightarrow> lower n = n"
  by (auto simp: names_h_iff lower_idem)

lemma values_of_nonempty: "values_of hs n \<noteq> [] \<longleftrightarrow> (\<exists>h \<in> set hs. lower (fst h) = lower n)"
  by (auto simp: values_of_def named_def filter_empty_conv)

lemma names_h_values: "n \<in> set (names_h hs) \<Longrightarrow> values_of hs n \<noteq> []"
  using names_h_lower[of n hs] by (auto simp: values_of_nonempty names_h_iff)

lemma get_h_Some: "values_of hs n \<noteq> [] \<Longrightarrow> get_h hs n = Some (join_values (values_of hs n))"
  by (cases "values_of hs n") (auto simp: get_h_def)

lemma get_h_None: "values_of hs n = [] \<Longrightarrow> get_h hs n = None"
  by (auto simp: get_h_def)

lemma keys_combined: "n \<in> set (names_h hs) \<Longrightarrow>
   \<exists>m. map fst (combined hs n) = replicate (Suc m) n"
proof -
  assume a: "n \<in> set (names_h hs)"
  then have ne: "values_of hs n \<noteq> []" by (rule names_h_values)
  show ?thesis
  proof (cases "n = ''set-cookie''")
    case True
    from ne obtain m where "length (values_of hs n) = Suc m" by (cases "values_of hs n") auto
    then have "map fst (combined hs n) = replicate (Suc m) n"
      using True by (simp add: combined_def o_def map_replicate_const)
    then show ?thesis by blast
  next
    case False
    from ne obtain v vs where "values_of hs n = v # vs"
      by (cases "values_of hs n") auto
    then have "map fst (combined hs n) = replicate (Suc 0) n"
      using False by (simp add: combined_def)
    then show ?thesis by blast
  qed
qed

lemma pick_step_replicate_fresh:
  assumes "\<forall>h \<in> set acc. \<not> named n h"
  shows "fold (pick_step hs keys) (replicate (Suc m) n) acc = pick_step hs keys n acc"
proof -
  have idem: "pick_step hs keys n (pick_step hs keys n acc) = pick_step hs keys n acc"
    using assms by (auto simp: pick_step_def set_h_def set_in_fresh set_in_last split: option.splits)
  have "fold (pick_step hs keys) (replicate m n) (pick_step hs keys n acc) = pick_step hs keys n acc"
    by (induction m) (auto simp: idem)
  then show ?thesis by simp
qed

lemma pick_fold:
  assumes "distinct ns" "set ns \<subseteq> set (names_h hs)"
    and "\<forall>h \<in> set acc. lower (fst h) \<notin> set ns"
  shows "fold (pick_step hs keys) (concat (map (\<lambda>n. map fst (combined hs n)) ns)) acc
       = acc @ map (picked_entry hs) (filter (\<lambda>n. list_ex (\<lambda>k. key_matches k n) keys) ns)"
  using assms
proof (induction ns arbitrary: acc)
  case Nil
  then show ?case by simp
next
  case (Cons n ns)
  from Cons.prems have nin: "n \<in> set (names_h hs)" by simp
  then obtain m where m: "map fst (combined hs n) = replicate (Suc m) n"
    using keys_combined by blast
  have ln: "lower n = n" using nin by (rule names_h_lower)
  have fresh: "\<forall>h \<in> set acc. \<not> named n h"
    using Cons.prems(3) ln by (auto simp: named_def)
  let ?acc' = "pick_step hs keys n acc"
  have acc': "?acc' = (if list_ex (\<lambda>k. key_matches k n) keys then acc @ [picked_entry hs n] else acc)"
    using get_h_Some[OF names_h_values[OF nin]] fresh
    by (simp add: pick_step_def set_h_def set_in_fresh picked_entry_def)
  have fresh': "\<forall>h \<in> set ?acc'. lower (fst h) \<notin> set ns"
    using Cons.prems(1,3) ln by (auto simp: acc' picked_entry_def)
  have "fold (pick_step hs keys) (concat (map (\<lambda>n. map fst (combined hs n)) (n # ns))) acc
      = fold (pick_step hs keys) (concat (map (\<lambda>n. map fst (combined hs n)) ns)) ?acc'"
    using pick_step_replicate_fresh[OF fresh] m by simp
  also have "\<dots> = ?acc' @ map (picked_entry hs) (filter (\<lambda>n. list_ex (\<lambda>k. key_matches k n) keys) ns)"
    using Cons.prems fresh' by (intro Cons.IH) auto
  finally show ?case by (simp add: acc')
qed

lemma keys_h_concat: "keys_h hs = concat (map (\<lambda>n. map fst (combined hs n)) (names_h hs))"
  by (simp add: keys_h_def sort_and_combine_def map_concat o_def)

lemma pickHeaders_eq:
  "pickHeaders hs keys =
     map (picked_entry hs) (filter (\<lambda>n. list_ex (\<lambda>k. key_matches k n) keys) (names_h hs))"
  unfolding pickHeaders_def keys_h_concat
  using pick_fold[of "names_h hs" hs "[]" keys] names_h_distinct by simp

section \<open>The fetch call of the handler\<close>

lemma handler_call_iff:
  "call \<in> set (fst (handler pf request)) \<longleftrightarrow>
     http_method request \<noteq> ''OPTIONS'' \<and>
     (\<exists>u t. parse_url pf (url request) = Some u \<and> pathname u \<noteq> ''/'' \<and>
        URL_with_base (parse_authority pf) (pathname u) upstream_base = Inr t \<and>
        call = \<lparr>targetUrl = copy_params (searchParams u) t, init_body = body request,
                init_method = http_method request,
                init_headers = forwarded_headers (headers request)\<rparr>)"
  by (auto simp: handler_def Let_def split: option.splits sum.splits)

lemma handler_call_headers:
  "call \<in> set (fst (handler pf request)) \<Longrightarrow>
     init_headers call = forwarded_headers (headers request)"
  by (auto simp: handler_call_iff)

lemma handler_relay:
  "call \<in> set (fst (handler pf request)) \<Longrightarrow> fetch pf call = Inr g \<Longrightarrow>
     handler pf request = ([call], relay g)"
  by (auto simp: handler_def Let_def split: option.splits sum.splits if_splits)

lemma handler_fetch_failed:
  "call \<in> set (fst (handler pf request)) \<Longrightarrow> fetch pf call = Inl e \<Longrightarrow>
     handler pf request = ([call], Inl e)"
  by (auto simp: handler_def Let_def split: option.splits sum.splits if_splits)

lemma handler_calls:
  "fst (handler pf request) =
     (if http_method request = ''OPTIONS'' then []
      else case parse_url pf (url request) of
        None \<Rightarrow> []
      | Some u \<Rightarrow>
          if pathname u = ''/'' then []
          else case URL_with_base (parse_authority pf) (pathname u) upstream_base of
            Inl e \<Rightarrow> []
          | Inr t \<Rightarrow>
              [\<lparr>targetUrl = copy_params (searchParams u) t, init_body = body request,
                init_method = http_method request,
                init_headers = forwarded_headers (headers request)\<rparr>])"
  by (simp add: handler_def Let_def split: option.splits sum.splits)

lemma example_call:
  assumes "m \<noteq> ''OPTIONS''"
  shows "hd (fst (handler (proxy_platform g) (example_request m models_url hs)))
     \<in> set (fst (handler (proxy_platform g) (example_request m models_url hs)))"
  unfolding handler_calls using assms
  by (simp add: example_request_def proxy_platform_def example_parse_url_def models_url_def
      parsed_def URL_with_base_def)

lemma example_call_down:
  assumes "m \<noteq> ''OPTIONS''"
  shows "hd (fst (handler down_platform (example_request m models_url hs)))
     \<in> set (fst (handler down_platform (example_request m models_url hs)))"
  unfolding handler_calls using assms
  by (simp add: example_request_def down_platform_def example_parse_url_def models_url_def
      parsed_def URL_with_base_def)

section \<open>The forwarded request headers\<close>

lemma allow_list_all_lower: "list_all (\<lambda>n. lower n = n) allow_list"
  by code_simp

lemma allow_list_lower: "n \<in> set allow_list \<Longrightarrow> lower n = n"
  using allow_list_all_lower by (simp add: list_all_iff)

lemma list_ex_Str: "list_ex (\<lambda>k. key_matches k n) (map Str ks) = (n \<in> set ks)"
  by (induction ks) auto

lemma forwarded_headers_eq:
  "forwarded_headers hs = map (picked_entry hs) (filter (\<lambda>n. n \<in> set allow_list) (names_h hs))"
  by (simp add: forwarded_headers_def pickHeaders_eq list_ex_Str)

lemma filter_eq_distinct: "distinct xs \<Longrightarrow> filter (\<lambda>m. m = n) xs = (if n \<in> set xs then [n] else [])"
  by (induction xs) auto

lemma names_h_iff_values: "lower n = n \<Longrightarrow> n \<in> set (names_h hs) \<longleftrightarrow> values_of hs n \<noteq> []"
  by (auto simp: names_h_iff values_of_nonempty)

lemma forwarded_only_allowed: "h \<in> set (forwarded_headers hs) \<Longrightarrow> fst h \<in> set allow_list"
  by (auto simp: forwarded_headers_eq picked_entry_def)

lemma forwarded_named:
  assumes "n \<in> set allow_list"
  shows "filter (named n) (forwarded_headers hs) =
           (case get_h hs n of None \<Rightarrow> [] | Some v \<Rightarrow> [(n, normalize_value v)])"
proof -
  let ?ns = "filter (\<lambda>n. n \<in> set allow_list) (names_h hs)"
  have ln: "lower n = n" using assms by (rule allow_list_lower)
  have d: "distinct ?ns" by (simp add: names_h_distinct)
  have "filter (named n) (map (picked_entry hs) ?ns) = map (picked_entry hs) (filter (\<lambda>m. m = n) ?ns)"
    unfolding filter_map
    by (rule arg_cong[where f = "map (picked_entry hs)"], rule filter_cong)
       (auto simp: named_def picked_entry_def ln allow_list_lower)
  also have "\<dots> = (if n \<in> set ?ns then [picked_entry hs n] else [])"
    unfolding filter_eq_distinct[OF d] by simp
  also have "\<dots> = (case get_h hs n of None \<Rightarrow> [] | Some v \<Rightarrow> [(n, normalize_value v)])"
  proof (cases "values_of hs n = []")
    case True
    then show ?thesis using assms ln by (simp add: names_h_iff_values get_h_None)
  next
    case False
    then show ?thesis using assms ln
      by (simp add: names_h_iff_values get_h_Some picked_entry_def)
  qed
  finally show ?thesis by (simp add: forwarded_headers_eq)
qed

lemma forwarded_cong:
  assumes "\<forall>n \<in> set allow_list. values_of h1 n = values_of h2 n"
  shows "forwarded_headers h1 = forwarded_headers h2"
proof -
  let ?P = "\<lambda>n. n \<in> set allow_list"
  have s: "set (filter ?P (map (\<lambda>h. lower (fst h)) h1)) = set (filter ?P (map (\<lambda>h. lower (fst h)) h2))"
  proof -
    have m: "set (filter ?P (map (\<lambda>h. lower (fst h)) h)) = {n. ?P n \<and> values_of h n \<noteq> []}" for h
    proof -
      have "n \<in> set (map (\<lambda>h. lower (fst h)) h) \<longleftrightarrow> values_of h n \<noteq> []" if "?P n" for n
        unfolding values_of_nonempty allow_list_lower[OF that] by (auto simp: image_iff)
      then show ?thesis by auto
    qed
    show ?thesis unfolding m using assms by auto
  qed
  have n: "\<And>h. filter ?P (names_h h) = sorted_list_of_set (set (filter ?P (map (\<lambda>h. lower (fst h)) h)))"
    unfolding names_h_def
    by (simp add: filter_sort remdups_filter sorted_list_of_set_sort_remdups del: set_filter)
  have e: "filter ?P (names_h h1) = filter ?P (names_h h2)"
    unfolding n s ..
  have "map (picked_entry h1) (filter ?P (names_h h2)) = map (picked_entry h2) (filter ?P (names_h h2))"
    using assms by (auto simp: picked_entry_def)
  then show ?thesis by (simp add: forwarded_headers_eq e)
qed

text \<open>
  Claim C2, as the code has it. The headers of every outbound request carry only names of
  the allow-list, so no inbound header of another name is forwarded. For each name of the
  allow-list that the inbound request carries, under any spelling, the outbound request has
  exactly one header, named in lower case, whose value is what the inbound Headers object
  returns for that name: the values of all inbound headers of that name, in order, joined
  with a comma and a space, with HTTP whitespace trimmed at both ends. This is the
  original value when the inbound request has the name once. A name of the allow-list that
  the inbound request lacks is absent from the outbound request too.
\<close>

theorem outbound_headers_allow_list:
  assumes "call \<in> set (fst (handler pf request))"
  shows "(\<forall>h \<in> set (init_headers call). fst h \<in> set allow_list) \<and>
         (\<forall>n. lower n \<notin> set allow_list \<longrightarrow> filter (named n) (init_headers call) = []) \<and>
         (\<forall>n \<in> set allow_list.
            filter (named n) (init_headers call) =
              (case get_h (headers request) n of
                 None \<Rightarrow> []
               | Some v \<Rightarrow> [(n, normalize_value v)])) \<and>
         (\<forall>n \<in> set allow_list. \<forall>v.
            values_of (headers request) n = [v] \<longrightarrow> normalize_value v = v \<longrightarrow>
              filter (named n) (init_headers call) = [(n, v)])"
proof -
  let ?out = "forwarded_headers (headers request)"
  have out: "init_headers call = ?out"
    using assms by (rule handler_call_headers)
  have 1: "\<forall>h \<in> set ?out. fst h \<in> set allow_list"
    using forwarded_only_allowed by blast
  have 2: "filter (named n) ?out = []" if "lower n \<notin> set allow_list" for n
  proof -
    have "\<not> named n h" if "h \<in> set ?out" for h
      using 1 that \<open>lower n \<notin> set allow_list\<close> allow_list_lower[of "fst h"]
      by (auto simp: named_def)
    then show ?thesis by (simp add: filter_empty_conv)
  qed
  have 3: "filter (named n) ?out =
      (case get_h (headers request) n of None \<Rightarrow> [] | Some v \<Rightarrow> [(n, normalize_value v)])"
    if "n \<in> set allow_list" for n
    using that by (rule forwarded_named)
  have 4: "filter (named n) ?out = [(n, v)]"
    if "n \<in> set allow_list" "values_of (headers request) n = [v]" "normalize_value v = v" for n v
    using 3[OF that(1)] that(2,3) by (simp add: get_h_def)
  show ?thesis
    unfolding out using 1 2 3 4 by blast
qed

theorem outbound_headers_allow_list_witness:
  "hd (fst (handler down_platform
         (example_request ''POST'' models_url
            [(''Content-Type'', ''application/json''), (''Cookie'', ''a=b''),
             (''x-goog-api-key'', ''K''), (''User-Agent'', ''curl'')])))
     \<in> set (fst (handler down_platform
         (example_request ''POST'' models_url
            [(''Content-Type'', ''application/json''), (''Cookie'', ''a=b''),
             (''x-goog-api-key'', ''K''), (''User-Agent'', ''curl'')]))) \<and>
   filter (named ''content-type'')
     (init_headers (hd (fst (handler down_platform
         (example_request ''POST'' models_url
            [(''Content-Type'', ''application/json''), (''Cookie'', ''a=b''),
             (''x-goog-api-key'', ''K''), (''User-Agent'', ''curl'')])))))
     = [(''content-type'', ''application/json'')] \<and>
   filter (named ''Cookie'')
     (init_headers (hd (fst (handler down_platform
         (example_request ''POST'' models_url
            [(''Content-Type'', ''application/json''), (''Cookie'', ''a=b''),
             (''x-goog-api-key'', ''K''), (''User-Agent'', ''curl'')])))))
     = []"
proof -
  let ?req = "example_request ''POST'' models_url
            [(''Content-Type'', ''application/json''), (''Cookie'', ''a=b''),
             (''x-goog-api-key'', ''K''), (''User-Agent'', ''curl'')]"
  let ?c = "hd (fst (handler down_platform ?req))"
  have h: "?c \<in> set (fst (handler down_platform ?req))"
    by (rule example_call_down) simp
  note t = outbound_headers_allow_list[OF h]
  have m: "''content-type'' \<in> set allow_list"
    by (simp add: allow_list_def)
  have v: "values_of (headers ?req) ''content-type'' = [''application/json'']"
    by code_simp
  have n: "normalize_value ''application/json'' = ''application/json''"
    by code_simp
  have c: "lower ''Cookie'' \<notin> set allow_list"
    by code_simp
  from t m v n have a: "filter (named ''content-type'') (init_headers ?c)
      = [(''content-type'', ''application/json'')]"
    by blast
  from t c have b: "filter (named ''Cookie'') (init_headers ?c) = []"
    by blast
  from h a b show ?thesis by blast
qed

text \<open>
  Claim C2 as stated asks that every inbound header of an allowed name appears in the
  outbound request with its original value. An inbound request with two
  \<open>x-goog-api-key\<close> headers, of the values \<open>a\<close> and \<open>b\<close>, is forwarded with one header of the
  value \<open>a, b\<close>: neither inbound header appears with its own value.
\<close>

theorem repeated_header_counterexample:
  "filter (named ''x-goog-api-key'')
     (headers (example_request ''POST'' models_url
        [(''x-goog-api-key'', ''a''), (''x-goog-api-key'', ''b'')]))
     = [(''x-goog-api-key'', ''a''), (''x-goog-api-key'', ''b'')] \<and>
   map init_headers (fst (handler down_platform
     (example_request ''POST'' models_url
        [(''x-goog-api-key'', ''a''), (''x-goog-api-key'', ''b'')])))
     = [[(''x-goog-api-key'', ''a, b'')]]"
  by code_simp

text \<open>
  Claim C10: two inbound requests with the same method, URL and body, whose headers of each
  allow-listed name have the same values, lead to the same outbound requests (target URL,
  method, headers and body), whatever their other headers are; the whole invocation has
  the same result.
\<close>

theorem filtered_headers_noninterference:
  assumes "http_method r1 = http_method r2" and "url r1 = url r2" and "body r1 = body r2"
    and "\<forall>n \<in> set allow_list. values_of (headers r1) n = values_of (headers r2) n"
  shows "fst (handler pf r1) = fst (handler pf r2) \<and> handler pf r1 = handler pf r2"
proof -
  have f: "forwarded_headers (headers r1) = forwarded_headers (headers r2)"
    using assms(4) by (rule forwarded_cong)
  have "handler pf r1 = handler pf r2"
    unfolding handler_def f assms(1) assms(2) assms(3) by (rule refl)
  then show ?thesis by simp
qed

theorem filtered_headers_noninterference_witness:
  "handler (proxy_platform (example_upstream None))
     (example_request ''POST'' models_url
        [(''Content-Type'', ''application/json''), (''Cookie'', ''a=b'')])
   = handler (proxy_platform (example_upstream None))
     (example_request ''POST'' models_url
        [(''content-type'', ''application/json''), (''user-agent'', ''curl''),
         (''x-forwarded-for'', ''192.0.2.1'')])"
proof -
  let ?r1 = "example_request ''POST'' models_url
        [(''Content-Type'', ''application/json''), (''Cookie'', ''a=b'')]"
  let ?r2 = "example_request ''POST'' models_url
        [(''content-type'', ''application/json''), (''user-agent'', ''curl''),
         (''x-forwarded-for'', ''192.0.2.1'')]"
  have m: "http_method ?r1 = http_method ?r2" and u: "url ?r1 = url ?r2" and b: "body ?r1 = body ?r2"
    by (simp_all add: example_request_def)
  have "list_all (\<lambda>n. values_of (headers ?r1) n = values_of (headers ?r2) n) allow_list"
    by code_simp
  then have v: "\<forall>n \<in> set allow_list. values_of (headers ?r1) n = values_of (headers ?r2) n"
    by (simp add: list_all_iff)
  from filtered_headers_noninterference[OF m u b v] show ?thesis by (rule conjunct2)
qed

section \<open>Preflight and the static document\<close>

lemma fill_CORS:
  "fill CORS_HEADERS =
     [(''access-control-allow-origin'', ''*''),
      (''access-control-allow-methods'', ''GET, POST, PUT, DELETE, OPTIONS''),
      (''access-control-allow-headers'',
       ''Content-Type, Authorization, x-goog-api-key, x-goog-api-client'')]"
  by code_simp

lemma fill_static:
  "fill (CORS_HEADERS @ [(''content-type'', ''text/html;charset=UTF-8'')]) =
     [(''access-control-allow-origin'', ''*''),
      (''access-control-allow-methods'', ''GET, POST, PUT, DELETE, OPTIONS''),
      (''access-control-allow-headers'',
       ''Content-Type, Authorization, x-goog-api-key, x-goog-api-client''),
      (''content-type'', ''text/html;charset=UTF-8'')]"
  by code_simp

lemma static_content_type:
  "get_h (fill (CORS_HEADERS @ [(''content-type'', ''text/html;charset=UTF-8'')])) ''content-type''
     = Some ''text/html;charset=UTF-8''"
  by code_simp

lemma static_cors:
  "list_all (\<lambda>h. get_h (fill (CORS_HEADERS @ [(''content-type'', ''text/html;charset=UTF-8'')]))
      (fst h) = Some (snd h)) CORS_HEADERS"
  by code_simp

lemma static_Response:
  "Response (Text b) (CORS_HEADERS @ [(''content-type'', ''text/html;charset=UTF-8'')]) 200 [] =
     Inr \<lparr>r_body = Text b,
          r_headers = fill (CORS_HEADERS @ [(''content-type'', ''text/html;charset=UTF-8'')]),
          r_status = 200, r_statusText = []\<rparr>"
  by (simp add: Response_def reason_phrase_def null_body_status_def static_content_type)

lemma blank_html_title:
  "sublist ''Google PaLM/Gemini API Proxy on Netlify Edge'' blank_html"
proof -
  have "blank_html =
      (nl @ ''<!DOCTYPE html>'' @ nl @ ''<html>'' @ nl @ ''<head>'' @ nl @
       ''  <meta charset=\"UTF-8\">'' @ nl @ ''  <title>'') @
      ''Google PaLM/Gemini API Proxy on Netlify Edge'' @
      drop 109 blank_html"
    by (simp add: blank_html_def nl_def)
  then show ?thesis
    by (metis sublist_appendI)
qed

text \<open>
  Claim C5: a request with the method \<open>OPTIONS\<close> gets the status 204, no body and exactly
  the three CORS headers with their fixed values, and no \<open>fetch\<close> call is made, whatever
  the URL, the headers and the platform are.
\<close>

theorem preflight_response:
  assumes "http_method request = ''OPTIONS''"
  shows "handler pf request =
           ([], Inr \<lparr>r_body = Null,
                     r_headers =
                       [(''access-control-allow-origin'', ''*''),
                        (''access-control-allow-methods'', ''GET, POST, PUT, DELETE, OPTIONS''),
                        (''access-control-allow-headers'',
                         ''Content-Type, Authorization, x-goog-api-key, x-goog-api-client'')],
                     r_status = 204, r_statusText = []\<rparr>)"
  using assms
  by (simp add: handler_def Response_def fill_CORS reason_phrase_def null_body_status_def)

theorem preflight_response_witness:
  "handler down_platform (example_request ''OPTIONS'' ''https://proxy.example/'' []) =
           ([], Inr \<lparr>r_body = Null,
                     r_headers =
                       [(''access-control-allow-origin'', ''*''),
                        (''access-control-allow-methods'', ''GET, POST, PUT, DELETE, OPTIONS''),
                        (''access-control-allow-headers'',
                         ''Content-Type, Authorization, x-goog-api-key, x-goog-api-client'')],
                     r_status = 204, r_statusText = []\<rparr>)"
proof -
  have "http_method (example_request ''OPTIONS'' ''https://proxy.example/'' []) = ''OPTIONS''"
    by (simp add: example_request_def)
  then show ?thesis by (rule preflight_response)
qed

text \<open>
  Claim C6: a request with another method whose path is \<open>/\<close> gets, with no \<open>fetch\<close> call,
  the status 200, the content type \<open>text/html;charset=UTF-8\<close>, the static page, which
  contains the text \<open>Google PaLM/Gemini API Proxy on Netlify Edge\<close>, and the three CORS
  headers.
\<close>

theorem root_static_document:
  assumes "http_method request \<noteq> ''OPTIONS''"
    and "parse_url pf (url request) = Some u"
    and "pathname u = ''/''"
  shows "\<exists>r. handler pf request = ([], Inr r) \<and>
           r_status r = 200 \<and>
           get_h (r_headers r) ''content-type'' = Some ''text/html;charset=UTF-8'' \<and>
           r_body r = Text blank_html \<and>
           sublist ''Google PaLM/Gemini API Proxy on Netlify Edge'' blank_html \<and>
           r_headers r =
             [(''access-control-allow-origin'', ''*''),
              (''access-control-allow-methods'', ''GET, POST, PUT, DELETE, OPTIONS''),
              (''access-control-allow-headers'',
               ''Content-Type, Authorization, x-goog-api-key, x-goog-api-client''),
              (''content-type'', ''text/html;charset=UTF-8'')] \<and>
           get_h (r_headers r) ''access-control-allow-origin'' = Some ''*'' \<and>
           get_h (r_headers r) ''access-control-allow-methods''
             = Some ''GET, POST, PUT, DELETE, OPTIONS'' \<and>
           get_h (r_headers r) ''access-control-allow-headers''
             = Some ''Content-Type, Authorization, x-goog-api-key, x-goog-api-client''"
proof -
  let ?r = "\<lparr>r_body = Text blank_html,
              r_headers = fill (CORS_HEADERS @ [(''content-type'', ''text/html;charset=UTF-8'')]),
              r_status = 200, r_statusText = []\<rparr>"
  have h: "handler pf request = ([], Inr ?r)"
    using assms by (simp add: handler_def static_Response)
  have hs: "r_headers ?r = fill (CORS_HEADERS @ [(''content-type'', ''text/html;charset=UTF-8'')])"
    by simp
  have cors: "get_h (r_headers ?r) (fst c) = Some (snd c)" if "c \<in> set CORS_HEADERS" for c
    using static_cors that unfolding hs by (simp add: list_all_iff)
  have "r_status ?r = 200" and "r_body ?r = Text blank_html"
    by simp_all
  moreover have "get_h (r_headers ?r) ''content-type'' = Some ''text/html;charset=UTF-8''"
    unfolding hs by (rule static_content_type)
  moreover have "get_h (r_headers ?r) ''access-control-allow-origin'' = Some ''*''"
    using cors[of "(''access-control-allow-origin'', ''*'')"] by (simp add: CORS_HEADERS_def)
  moreover have "get_h (r_headers ?r) ''access-control-allow-methods''
             = Some ''GET, POST, PUT, DELETE, OPTIONS''"
    using cors[of "(''access-control-allow-methods'', ''GET, POST, PUT, DELETE, OPTIONS'')"]
    by (simp add: CORS_HEADERS_def)
  moreover have "get_h (r_headers ?r) ''access-control-allow-headers''
             = Some ''Content-Type, Authorization, x-goog-api-key, x-goog-api-client''"
    using cors[of "(''access-control-allow-headers'',
       ''Content-Type, Authorization, x-goog-api-key, x-goog-api-client'')"]
    by (simp add: CORS_HEADERS_def)
  moreover have "r_headers ?r =
             [(''access-control-allow-origin'', ''*''),
              (''access-control-allow-methods'', ''GET, POST, PUT, DELETE, OPTIONS''),
              (''access-control-allow-headers'',
               ''Content-Type, Authorization, x-goog-api-key, x-goog-api-client''),
              (''content-type'', ''text/html;charset=UTF-8'')]"
    unfolding hs by (rule fill_static)
  ultimately show ?thesis
    using h blank_html_title by blast
qed

theorem root_static_document_witness:
  "\<exists>r. handler down_platform (example_request ''GET'' ''https://proxy.example/'' [(''cookie'', ''a=b'')])
          = ([], Inr r) \<and>
       r_status r = 200 \<and>
       get_h (r_headers r) ''content-type'' = Some ''text/html;charset=UTF-8'' \<and>
       r_body r = Text blank_html"
proof -
  let ?req = "example_request ''GET'' ''https://proxy.example/'' [(''cookie'', ''a=b'')]"
  have 1: "http_method ?req \<noteq> ''OPTIONS''"
    by (simp add: example_request_def)
  have 2: "parse_url down_platform (url ?req) = Some (parsed ''/'' [])"
    by (simp add: example_request_def down_platform_def example_parse_url_def)
  have 3: "pathname (parsed ''/'' []) = ''/''"
    by (simp add: parsed_def)
  from root_static_document[OF 1 2 3] show ?thesis by blast
qed

section \<open>Status, failures and outcomes\<close>

lemma relay_eq:
  "relay g =
     (if (g_status g < 200 \<or> 599 < g_status g) \<and> g_status g \<noteq> 101
      then Inl (RangeError ''status'')
      else if \<not> reason_phrase (g_statusText g) then Inl (TypeError ''status text'')
      else if g_body g \<noteq> None \<and> null_body_status (g_status g)
      then Inl (TypeError ''null body status'')
      else
        Inr \<lparr>r_body = (case g_body g of None \<Rightarrow> Null | Some chunks \<Rightarrow> Readable (pipeTo chunks)),
             r_headers = fill (sort_and_combine (response_headers (g_headers g))),
             r_status = g_status g, r_statusText = g_statusText g\<rparr>)"
  by (simp add: relay_def Response_def Let_def split: option.splits)

lemma relay_accepted:
  assumes "200 \<le> g_status g" and "g_status g \<le> 599" and "reason_phrase (g_statusText g)"
    and "g_body g \<noteq> None \<longrightarrow> \<not> null_body_status (g_status g)"
  shows "relay g =
     Inr \<lparr>r_body = (case g_body g of None \<Rightarrow> Null | Some chunks \<Rightarrow> Readable (pipeTo chunks)),
          r_headers = fill (sort_and_combine (response_headers (g_headers g))),
          r_status = g_status g, r_statusText = g_statusText g\<rparr>"
  using assms by (auto simp: relay_eq)

lemma handler_eq:
  "handler pf request =
     (if http_method request = ''OPTIONS'' then
        ([], Inr \<lparr>r_body = Null,
            r_headers =
              [(''access-control-allow-origin'', ''*''),
               (''access-control-allow-methods'', ''GET, POST, PUT, DELETE, OPTIONS''),
               (''access-control-allow-headers'',
                ''Content-Type, Authorization, x-goog-api-key, x-goog-api-client'')],
            r_status = 204, r_statusText = []\<rparr>)
      else
        case parse_url pf (url request) of
          None \<Rightarrow> ([], Inl (TypeError ''Invalid URL''))
        | Some u \<Rightarrow>
            if pathname u = ''/'' then
              ([], Inr \<lparr>r_body = Text blank_html,
            r_headers =
              [(''access-control-allow-origin'', ''*''),
               (''access-control-allow-methods'', ''GET, POST, PUT, DELETE, OPTIONS''),
               (''access-control-allow-headers'',
                ''Content-Type, Authorization, x-goog-api-key, x-goog-api-client''),
               (''content-type'', ''text/html;charset=UTF-8'')],
            r_status = 200, r_statusText = []\<rparr>)
            else
              case URL_with_base (parse_authority pf) (pathname u) upstream_base of
                Inl e \<Rightarrow> ([], Inl e)
              | Inr t \<Rightarrow>
                  (case fetch pf \<lparr>targetUrl = copy_params (searchParams u) t,
                                  init_body = body request,
                                  init_method = http_method request,
                                  init_headers = forwarded_headers (headers request)\<rparr> of
                     Inl e \<Rightarrow>
                       ([\<lparr>targetUrl = copy_params (searchParams u) t,
                          init_body = body request,
                          init_method = http_method request,
                          init_headers = forwarded_headers (headers request)\<rparr>], Inl e)
                   | Inr g \<Rightarrow>
                       ([\<lparr>targetUrl = copy_params (searchParams u) t,
                          init_body = body request,
                          init_method = http_method request,
                          init_headers = forwarded_headers (headers request)\<rparr>], relay g)))"
proof -
  have pre: "Response Null CORS_HEADERS 204 [] =
      Inr \<lparr>r_body = Null,
            r_headers =
              [(''access-control-allow-origin'', ''*''),
               (''access-control-allow-methods'', ''GET, POST, PUT, DELETE, OPTIONS''),
               (''access-control-allow-headers'',
                ''Content-Type, Authorization, x-goog-api-key, x-goog-api-client'')],
            r_status = 204, r_statusText = []\<rparr>"
    by (simp add: Response_def fill_CORS reason_phrase_def null_body_status_def)
  show ?thesis
    unfolding handler_def Let_def pre static_Response fill_static
    by (simp split: option.splits sum.splits)
qed

text \<open>
  Claim C7, as the code has it. When \<open>fetch\<close> resolves with a response that \<open>new Response\<close>
  accepts (a status from 200 to 599, a reason phrase as status text, and no body with a
  null body status), the response of the handler has the status and the status text of
  the upstream response, whatever the status is and whether or not there is a body; without
  an upstream body the response has none, and with one its body is the readable side of
  the relay of that body. For an upstream status outside 200 to 599 other than 101 the
  constructor throws: the invocation fails with the \<open>RangeError\<close> and there is no response.
\<close>

theorem relay_status:
  assumes "call \<in> set (fst (handler pf request))" and "fetch pf call = Inr g"
  shows "(200 \<le> g_status g \<and> g_status g \<le> 599 \<and> reason_phrase (g_statusText g) \<and>
          (g_body g \<noteq> None \<longrightarrow> \<not> null_body_status (g_status g)) \<longrightarrow>
          (\<exists>r. handler pf request = ([call], Inr r) \<and>
             r_status r = g_status g \<and> r_statusText r = g_statusText g \<and>
             (g_body g = None \<longrightarrow> r_body r = Null) \<and>
             (\<forall>chunks. g_body g = Some chunks \<longrightarrow> r_body r = Readable (pipeTo chunks)))) \<and>
         ((g_status g < 200 \<or> 599 < g_status g) \<and> g_status g \<noteq> 101 \<longrightarrow>
          handler pf request = ([call], Inl (RangeError ''status'')))"
proof -
  have h: "handler pf request = ([call], relay g)"
    using assms by (rule handler_relay)
  have 1: "\<exists>r. handler pf request = ([call], Inr r) \<and>
             r_status r = g_status g \<and> r_statusText r = g_statusText g \<and>
             (g_body g = None \<longrightarrow> r_body r = Null) \<and>
             (\<forall>chunks. g_body g = Some chunks \<longrightarrow> r_body r = Readable (pipeTo chunks))"
    if "200 \<le> g_status g" "g_status g \<le> 599" "reason_phrase (g_statusText g)"
      "g_body g \<noteq> None \<longrightarrow> \<not> null_body_status (g_status g)"
    unfolding h relay_accepted[OF that] by simp
  have 2: "handler pf request = ([call], Inl (RangeError ''status''))"
    if "(g_status g < 200 \<or> 599 < g_status g) \<and> g_status g \<noteq> 101"
    unfolding h using that by (simp add: relay_eq)
  from 1 2 show ?thesis by blast
qed

theorem relay_status_witness:
  "(\<exists>r. handler (proxy_platform (example_upstream None)) (example_request ''GET'' models_url [])
          = ([hd (fst (handler (proxy_platform (example_upstream None))
                  (example_request ''GET'' models_url [])))], Inr r) \<and>
       r_status r = 404 \<and> r_statusText r = ''Not Found'' \<and> r_body r = Null) \<and>
   handler (proxy_platform (example_upstream_999)) (example_request ''GET'' models_url [])
     = ([hd (fst (handler (proxy_platform (example_upstream_999))
                  (example_request ''GET'' models_url [])))], Inl (RangeError ''status''))"
proof -
  let ?req = "example_request ''GET'' models_url []"
  let ?g = "example_upstream None"
  let ?pf = "proxy_platform ?g"
  let ?c = "hd (fst (handler ?pf ?req))"
  let ?pf9 = "proxy_platform example_upstream_999"
  let ?c9 = "hd (fst (handler ?pf9 ?req))"
  have 1: "?c \<in> set (fst (handler ?pf ?req))"
    by (rule example_call) simp
  have 2: "fetch ?pf ?c = Inr ?g"
    by (simp add: proxy_platform_def)
  have 3: "g_status ?g = 404" "g_statusText ?g = ''Not Found''" "g_body ?g = None"
    by (simp_all add: example_upstream_def)
  have 4: "200 \<le> g_status ?g \<and> g_status ?g \<le> 599 \<and> reason_phrase (g_statusText ?g) \<and>
          (g_body ?g \<noteq> None \<longrightarrow> \<not> null_body_status (g_status ?g))"
    unfolding 3 by (simp add: reason_phrase_def)
  have a: "\<exists>r. handler ?pf ?req = ([?c], Inr r) \<and>
       r_status r = 404 \<and> r_statusText r = ''Not Found'' \<and> r_body r = Null"
    using relay_status[OF 1 2] 4 unfolding 3 by blast
  have 5: "?c9 \<in> set (fst (handler ?pf9 ?req))"
    by (rule example_call) simp
  have 6: "fetch ?pf9 ?c9 = Inr example_upstream_999"
    by (simp add: proxy_platform_def)
  have 7: "(g_status example_upstream_999 < 200 \<or> 599 < g_status example_upstream_999) \<and>
      g_status example_upstream_999 \<noteq> 101"
    by (simp add: example_upstream_999_def)
  have b: "handler ?pf9 ?req = ([?c9], Inl (RangeError ''status''))"
    using relay_status[OF 5 6] 7 by blast
  from a b show ?thesis by (rule conjI)
qed

text \<open>
  Claim C7 as stated gives every upstream response an outbound response with its status.
  An upstream response with the status 999 makes \<open>new Response\<close> throw: the invocation
  fails after its \<open>fetch\<close> call and there is no outbound response.
\<close>

theorem upstream_status_999_counterexample:
  "snd (handler (proxy_platform
          \<lparr>g_status = 999, g_statusText = [], g_headers = [], g_body = None\<rparr>)
        (example_request ''GET'' models_url []))
     = Inl (RangeError ''status'')"
  by code_simp

text \<open>
  Claim C9: when the parse of the request URL fails (it is attempted for every method but
  \<open>OPTIONS\<close>), the invocation fails with that error, and when the \<open>fetch\<close> call rejects, the
  invocation fails with the rejection: in both cases the result is the error and no
  response.
\<close>

theorem failures_propagate:
  "(http_method request \<noteq> ''OPTIONS'' \<longrightarrow> parse_url pf (url request) = None \<longrightarrow>
      handler pf request = ([], Inl (TypeError ''Invalid URL''))) \<and>
   (call \<in> set (fst (handler pf request)) \<longrightarrow> fetch pf call = Inl e \<longrightarrow>
      handler pf request = ([call], Inl e))"
proof (intro conjI impI)
  assume "http_method request \<noteq> ''OPTIONS''" and "parse_url pf (url request) = None"
  then show "handler pf request = ([], Inl (TypeError ''Invalid URL''))"
    by (simp add: handler_def)
next
  assume "call \<in> set (fst (handler pf request))" and "fetch pf call = Inl e"
  then show "handler pf request = ([call], Inl e)"
    by (rule handler_fetch_failed)
qed

theorem failures_propagate_witness:
  "handler down_platform (example_request ''GET'' ''not a url'' [])
     = ([], Inl (TypeError ''Invalid URL'')) \<and>
   handler down_platform (example_request ''GET'' models_url [])
     = ([hd (fst (handler down_platform (example_request ''GET'' models_url [])))],
        Inl (TypeError ''fetch failed''))"
proof -
  let ?bad = "example_request ''GET'' ''not a url'' []"
  let ?req = "example_request ''GET'' models_url []"
  let ?c = "hd (fst (handler down_platform ?req))"
  have 1: "http_method ?bad \<noteq> ''OPTIONS''"
    by (simp add: example_request_def)
  have 2: "parse_url down_platform (url ?bad) = None"
    by (simp add: example_request_def down_platform_def example_parse_url_def)
  have 3: "?c \<in> set (fst (handler down_platform ?req))"
    by (rule example_call_down) simp
  have 4: "fetch down_platform ?c = Inl (TypeError ''fetch failed'')"
    by (simp add: down_platform_def)
  have a: "handler down_platform ?bad = ([], Inl (TypeError ''Invalid URL''))"
    using failures_propagate[where request = ?bad and pf = down_platform] 1 2 by blast
  have b: "handler down_platform ?req = ([?c], Inl (TypeError ''fetch failed''))"
    using failures_propagate[where request = ?req and pf = down_platform and call = ?c] 3 4 by blast
  from a b show ?thesis by (rule conjI)
qed

text \<open>
  Claim C8, as the code has it. An invocation either fails (the request URL or the target
  URL does not parse, \<open>fetch\<close> rejects, or \<open>new Response\<close> rejects the upstream response) and
  gives no response, or ends in exactly one of four outcomes, decided in this order: the
  method \<open>OPTIONS\<close> gives the preflight response (204, no body, exactly the CORS headers),
  also for the path \<open>/\<close>; otherwise the path \<open>/\<close> gives the static document; otherwise an
  upstream response without body gives a response of its status and the relayed headers
  without body, and one with a body the same with the relay of that body.
\<close>

theorem handler_outcome:
  "outcome_of (handler pf request) =
     (if http_method request = ''OPTIONS'' then Some Preflight
      else case parse_url pf (url request) of
        None \<Rightarrow> None
      | Some u \<Rightarrow>
          if pathname u = ''/'' then Some StaticDocument
          else case URL_with_base (parse_authority pf) (pathname u) upstream_base of
            Inl e \<Rightarrow> None
          | Inr t \<Rightarrow>
              (case fetch pf \<lparr>targetUrl = copy_params (searchParams u) t,
                              init_body = body request,
                              init_method = http_method request,
                              init_headers = forwarded_headers (headers request)\<rparr> of
                 Inl e \<Rightarrow> None
               | Inr g \<Rightarrow>
                   if rejected g then None
                   else if g_body g = None then Some HeadersOnly else Some Streamed)) \<and>
   (outcome_of (handler pf request) = Some Preflight \<longrightarrow>
      handler pf request = ([], Inr \<lparr>r_body = Null,
            r_headers =
              [(''access-control-allow-origin'', ''*''),
               (''access-control-allow-methods'', ''GET, POST, PUT, DELETE, OPTIONS''),
               (''access-control-allow-headers'',
                ''Content-Type, Authorization, x-goog-api-key, x-goog-api-client'')],
            r_status = 204, r_statusText = []\<rparr>)) \<and>
   (outcome_of (handler pf request) = Some StaticDocument \<longrightarrow>
      handler pf request = ([], Inr \<lparr>r_body = Text blank_html,
            r_headers =
              [(''access-control-allow-origin'', ''*''),
               (''access-control-allow-methods'', ''GET, POST, PUT, DELETE, OPTIONS''),
               (''access-control-allow-headers'',
                ''Content-Type, Authorization, x-goog-api-key, x-goog-api-client''),
               (''content-type'', ''text/html;charset=UTF-8'')],
            r_status = 200, r_statusText = []\<rparr>)) \<and>
   (outcome_of (handler pf request) = Some HeadersOnly \<longrightarrow>
      (\<exists>call g. fetch pf call = Inr g \<and> g_body g = None \<and>
         handler pf request =
           ([call], Inr \<lparr>r_body = Null,
                         r_headers = fill (sort_and_combine (response_headers (g_headers g))),
                         r_status = g_status g, r_statusText = g_statusText g\<rparr>))) \<and>
   (outcome_of (handler pf request) = Some Streamed \<longrightarrow>
      (\<exists>call g chunks. fetch pf call = Inr g \<and> g_body g = Some chunks \<and>
         handler pf request =
           ([call], Inr \<lparr>r_body = Readable (pipeTo chunks),
                         r_headers = fill (sort_and_combine (response_headers (g_headers g))),
                         r_status = g_status g, r_statusText = g_statusText g\<rparr>))) \<and>
   (outcome_of (handler pf request) = None \<longrightarrow> (\<exists>e. snd (handler pf request) = Inl e))"
proof -
  note defs = handler_eq relay_eq rejected_def
  have 1: "outcome_of (handler pf request) =
     (if http_method request = ''OPTIONS'' then Some Preflight
      else case parse_url pf (url request) of
        None \<Rightarrow> None
      | Some u \<Rightarrow>
          if pathname u = ''/'' then Some StaticDocument
          else case URL_with_base (parse_authority pf) (pathname u) upstream_base of
            Inl e \<Rightarrow> None
          | Inr t \<Rightarrow>
              (case fetch pf \<lparr>targetUrl = copy_params (searchParams u) t,
                              init_body = body request,
                              init_method = http_method request,
                              init_headers = forwarded_headers (headers request)\<rparr> of
                 Inl e \<Rightarrow> None
               | Inr g \<Rightarrow>
                   if rejected g then None
                   else if g_body g = None then Some HeadersOnly else Some Streamed))"
    by (auto simp: defs split: option.splits sum.splits)
  have 2: "outcome_of (handler pf request) = Some Preflight \<longrightarrow>
      handler pf request = ([], Inr \<lparr>r_body = Null,
            r_headers =
              [(''access-control-allow-origin'', ''*''),
               (''access-control-allow-methods'', ''GET, POST, PUT, DELETE, OPTIONS''),
               (''access-control-allow-headers'',
                ''Content-Type, Authorization, x-goog-api-key, x-goog-api-client'')],
            r_status = 204, r_statusText = []\<rparr>)"
    by (auto simp: defs split: option.splits sum.splits if_splits)
  have 3: "outcome_of (handler pf request) = Some StaticDocument \<longrightarrow>
      handler pf request = ([], Inr \<lparr>r_body = Text blank_html,
            r_headers =
              [(''access-control-allow-origin'', ''*''),
               (''access-control-allow-methods'', ''GET, POST, PUT, DELETE, OPTIONS''),
               (''access-control-allow-headers'',
                ''Content-Type, Authorization, x-goog-api-key, x-goog-api-client''),
               (''content-type'', ''text/html;charset=UTF-8'')],
            r_status = 200, r_statusText = []\<rparr>)"
    by (auto simp: defs split: option.splits sum.splits if_splits)
  have 4: "outcome_of (handler pf request) = Some HeadersOnly \<longrightarrow>
      (\<exists>call g. fetch pf call = Inr g \<and> g_body g = None \<and>
         handler pf request =
           ([call], Inr \<lparr>r_body = Null,
                         r_headers = fill (sort_and_combine (response_headers (g_headers g))),
                         r_status = g_status g, r_statusText = g_statusText g\<rparr>))"
    by (auto simp: defs split: option.splits sum.splits if_splits)
  have 5: "outcome_of (handler pf request) = Some Streamed \<longrightarrow>
      (\<exists>call g chunks. fetch pf call = Inr g \<and> g_body g = Some chunks \<and>
         handler pf request =
           ([call], Inr \<lparr>r_body = Readable (pipeTo chunks),
                         r_headers = fill (sort_and_combine (response_headers (g_headers g))),
                         r_status = g_status g, r_statusText = g_statusText g\<rparr>))"
    by (auto simp: defs split: option.splits sum.splits if_splits)
  have 6: "outcome_of (handler pf request) = None \<longrightarrow> (\<exists>e. snd (handler pf request) = Inl e)"
    by (cases "handler pf request" rule: outcome_of.cases) auto
  from 1 2 3 4 5 6 show ?thesis by blast
qed

theorem handler_outcome_witness:
  "outcome_of (handler (proxy_platform (example_upstream None))
     (example_request ''OPTIONS'' ''https://proxy.example/'' [])) = Some Preflight \<and>
   handler (proxy_platform (example_upstream None))
     (example_request ''OPTIONS'' ''https://proxy.example/'' []) = ([], Inr \<lparr>r_body = Null,
            r_headers =
              [(''access-control-allow-origin'', ''*''),
               (''access-control-allow-methods'', ''GET, POST, PUT, DELETE, OPTIONS''),
               (''access-control-allow-headers'',
                ''Content-Type, Authorization, x-goog-api-key, x-goog-api-client'')],
            r_status = 204, r_statusText = []\<rparr>) \<and>
   outcome_of (handler (proxy_platform (example_upstream None))
     (example_request ''GET'' ''https://proxy.example/'' [])) = Some StaticDocument \<and>
   outcome_of (handler (proxy_platform (example_upstream None))
     (example_request ''GET'' models_url [])) = Some HeadersOnly \<and>
   outcome_of (handler (proxy_platform (example_upstream (Some [''ab'', ''c''])))
     (example_request ''GET'' models_url [])) = Some Streamed \<and>
   outcome_of (handler (proxy_platform example_upstream_999)
     (example_request ''GET'' models_url [])) = None"
proof -
  note ex = example_request_def proxy_platform_def example_parse_url_def models_url_def
      parsed_def URL_with_base_def upstream_base_def example_upstream_def
      example_upstream_999_def rejected_def reason_phrase_def null_body_status_def
  note t = handler_outcome[of "proxy_platform (example_upstream None)"
      "example_request ''OPTIONS'' ''https://proxy.example/'' []"]
  have o: "outcome_of (handler (proxy_platform (example_upstream None))
     (example_request ''OPTIONS'' ''https://proxy.example/'' [])) = Some Preflight"
    using t by (simp add: ex)
  with t have p: "handler (proxy_platform (example_upstream None))
     (example_request ''OPTIONS'' ''https://proxy.example/'' []) = ([], Inr \<lparr>r_body = Null,
            r_headers =
              [(''access-control-allow-origin'', ''*''),
               (''access-control-allow-methods'', ''GET, POST, PUT, DELETE, OPTIONS''),
               (''access-control-allow-headers'',
                ''Content-Type, Authorization, x-goog-api-key, x-goog-api-client'')],
            r_status = 204, r_statusText = []\<rparr>)"
    by blast
  have s: "outcome_of (handler (proxy_platform (example_upstream None))
     (example_request ''GET'' ''https://proxy.example/'' [])) = Some StaticDocument"
    using handler_outcome[of "proxy_platform (example_upstream None)"
      "example_request ''GET'' ''https://proxy.example/'' []"] by (simp add: ex)
  have h: "outcome_of (handler (proxy_platform (example_upstream None))
     (example_request ''GET'' models_url [])) = Some HeadersOnly"
    using handler_outcome[of "proxy_platform (example_upstream None)"
      "example_request ''GET'' models_url []"] by (simp add: ex)
  have r: "outcome_of (handler (proxy_platform (example_upstream (Some [''ab'', ''c''])))
     (example_request ''GET'' models_url [])) = Some Streamed"
    using handler_outcome[of "proxy_platform (example_upstream (Some [''ab'', ''c'']))"
      "example_request ''GET'' models_url []"] by (simp add: ex)
  have n: "outcome_of (handler (proxy_platform example_upstream_999)
     (example_request ''GET'' models_url [])) = None"
    using handler_outcome[of "proxy_platform example_upstream_999"
      "example_request ''GET'' models_url []"] by (simp add: ex)
  from o p s h r n show ?thesis by blast
qed

text \<open>
  Claim C8 as stated gives every invocation one of the four outcomes. A \<open>GET\<close> of
  \<open>/v1beta/models\<close> while the upstream cannot be reached makes its \<open>fetch\<close> call and fails:
  it ends in none of them.
\<close>

theorem upstream_down_counterexample:
  "handler down_platform (example_request ''GET'' models_url [])
     = ([\<lparr>targetUrl =
            \<lparr>scheme = ''https'', host = ''generativelanguage.googleapis.com'',
             pathname = ''/v1beta/models'',
             searchParams = [(''foo'', ''1''), (''bar'', ''2''), (''foo'', ''3'')]\<rparr>,
          init_body = None, init_method = ''GET'', init_headers = []\<rparr>],
        Inl (TypeError ''fetch failed'')) \<and>
   outcome_of (handler down_platform (example_request ''GET'' models_url [])) = None"
  by code_simp

section \<open>The target URL\<close>

lemma copy_params_searchParams:
  "searchParams (copy_params ps t) = searchParams t @ filter (\<lambda>(key, v). key \<noteq> ''_path'') ps"
  unfolding copy_params_def
  by (induction ps arbitrary: t) (auto simp: append_param_def)

lemma copy_params_fields:
  "scheme (copy_params ps t) = scheme t"
  "host (copy_params ps t) = host t"
  "pathname (copy_params ps t) = pathname t"
  unfolding copy_params_def
  by (induction ps arbitrary: t; auto simp: append_param_def)+

lemma URL_with_base_searchParams:
  assumes "URL_with_base authority input base = Inr t"
  shows "searchParams t = []"
proof (cases "take 2 input = ''//''")
  case False
  then have "URL_with_base authority input base =
      Inr \<lparr>scheme = scheme base, host = host base, pathname = input, searchParams = []\<rparr>"
    by (simp add: URL_with_base_def)
  with assms show ?thesis by auto
next
  case True
  define a where "a = takeWhile (\<lambda>c. c \<noteq> CHR ''/'') (drop 2 input)"
  define p where "p = dropWhile (\<lambda>c. c \<noteq> CHR ''/'') (drop 2 input)"
  have e: "URL_with_base authority input base =
      (if a = [] then Inl (TypeError ''Invalid URL'')
       else case authority a of
              None \<Rightarrow> Inl (TypeError ''Invalid URL'')
            | Some h \<Rightarrow>
                Inr \<lparr>scheme = scheme base, host = h,
                     pathname = (if p = [] then ''/'' else p), searchParams = []\<rparr>)"
    unfolding URL_with_base_def Let_def a_def p_def by (simp only: True simp_thms if_True)
  show ?thesis
    using assms unfolding e by (auto split: if_splits option.splits)
qed

lemma URL_with_base_path:
  assumes "take 2 input \<noteq> ''//''"
  shows "URL_with_base authority input base =
           Inr \<lparr>scheme = scheme base, host = host base, pathname = input, searchParams = []\<rparr>"
  using assms by (simp add: URL_with_base_def)

text \<open>
  Claim C1 on a path with two leading slashes. The request
  \<open>GET https://proxy.example//evil.example/v1beta/models?key=K\<close> has the path
  \<open>//evil.example/v1beta/models\<close>, which is neither \<open>/\<close> nor an \<open>OPTIONS\<close> request. The
  handler fetches \<open>https://evil.example/v1beta/models?key=K\<close>: the origin is not the
  upstream's and the path is not the inbound path. The API key of the request goes there.
\<close>

theorem scheme_relative_path_leaves_upstream:
  "fst (handler (proxy_platform (example_upstream None))
     (example_request ''GET'' ''https://proxy.example//evil.example/v1beta/models?key=K''
        [(''x-goog-api-key'', ''secret'')]))
   = [\<lparr>targetUrl =
         \<lparr>scheme = ''https'', host = ''evil.example'', pathname = ''/v1beta/models'',
          searchParams = [(''key'', ''K'')]\<rparr>,
       init_body = None, init_method = ''GET'',
       init_headers = [(''x-goog-api-key'', ''secret'')]\<rparr>]"
  by code_simp

text \<open>
  The part of claim C1 that holds: for a request that is not \<open>OPTIONS\<close>, whose path is not
  \<open>/\<close> and does not start with two slashes, the handler makes one \<open>fetch\<close> call, to the
  origin \<open>https://generativelanguage.googleapis.com\<close>, with the inbound path unchanged and
  the inbound query parameters in their order, all values of repeated names included, without
  those named \<open>_path\<close>.
\<close>

theorem target_url_of_path:
  assumes "http_method request \<noteq> ''OPTIONS''"
    and "parse_url pf (url request) = Some u"
    and "pathname u \<noteq> ''/''"
    and "take 2 (pathname u) \<noteq> ''//''"
  shows "\<exists>call. fst (handler pf request) = [call] \<and>
           origin (targetUrl call) = ''https://generativelanguage.googleapis.com'' \<and>
           pathname (targetUrl call) = pathname u \<and>
           searchParams (targetUrl call) = filter (\<lambda>(key, v). key \<noteq> ''_path'') (searchParams u)"
proof -
  let ?t = "\<lparr>scheme = scheme upstream_base, host = host upstream_base,
             pathname = pathname u, searchParams = []\<rparr>"
  let ?call = "\<lparr>targetUrl = copy_params (searchParams u) ?t, init_body = body request,
                init_method = http_method request,
                init_headers = forwarded_headers (headers request)\<rparr>"
  have t: "URL_with_base (parse_authority pf) (pathname u) upstream_base = Inr ?t"
    using assms(4) by (rule URL_with_base_path)
  have "fst (handler pf request) = [?call]"
    using assms(1-3) by (simp add: handler_def t Let_def split: sum.splits)
  moreover have "origin (targetUrl ?call) = ''https://generativelanguage.googleapis.com''"
    by (simp add: origin_def copy_params_fields upstream_base_def)
  moreover have "pathname (targetUrl ?call) = pathname u"
    by (simp add: copy_params_fields)
  moreover have "searchParams (targetUrl ?call)
      = filter (\<lambda>(key, v). key \<noteq> ''_path'') (searchParams u)"
    by (simp add: copy_params_searchParams)
  ultimately show ?thesis by blast
qed

lemma models_url_parsed: "parse_url down_platform (url (example_request ''GET'' models_url [])) = Some (parsed ''/v1beta/models''
              [(''foo'', ''1''), (''_path'', ''internal''), (''bar'', ''2''), (''foo'', ''3'')])"
    by (simp add: example_request_def down_platform_def example_parse_url_def models_url_def)

lemma models_path_single_slash: "pathname (parsed ''/v1beta/models'' q) \<noteq> ''/''" "take 2 (pathname (parsed ''/v1beta/models'' q)) \<noteq> ''//''"
    by (simp_all add: parsed_def)

lemma models_path_and_query: "pathname (parsed ''/v1beta/models'' q) = ''/v1beta/models''"
  "filter (\<lambda>(key, v). key \<noteq> ''_path'') (searchParams (parsed ''/v1beta/models''
              [(''foo'', ''1''), (''_path'', ''internal''), (''bar'', ''2''), (''foo'', ''3'')]))
          = [(''foo'', ''1''), (''bar'', ''2''), (''foo'', ''3'')]"
    by (simp_all add: parsed_def)

theorem target_url_of_path_witness:
  "\<exists>call. fst (handler down_platform (example_request ''GET'' models_url [])) = [call] \<and>
      origin (targetUrl call) = ''https://generativelanguage.googleapis.com'' \<and>
      pathname (targetUrl call) = ''/v1beta/models'' \<and>
      searchParams (targetUrl call) = [(''foo'', ''1''), (''bar'', ''2''), (''foo'', ''3'')]"
proof -
  let ?req = "example_request ''GET'' models_url []"
  have 1: "http_method ?req \<noteq> ''OPTIONS''"
    by (simp add: example_request_def)
  from target_url_of_path[OF 1 models_url_parsed models_path_single_slash] show ?thesis by (simp only: models_path_and_query)
qed

text \<open>
  The query of every outbound request, whatever the path: the inbound parameters in their
  order without those named \<open>_path\<close>.
\<close>

theorem target_query:
  assumes "call \<in> set (fst (handler pf request))"
    and "parse_url pf (url request) = Some u"
  shows "searchParams (targetUrl call) = filter (\<lambda>(key, v). key \<noteq> ''_path'') (searchParams u)"
proof -
  from assms obtain t where
    t: "URL_with_base (parse_authority pf) (pathname u) upstream_base = Inr t"
    and c: "targetUrl call = copy_params (searchParams u) t"
    unfolding handler_call_iff by auto
  have "searchParams t = []"
    using t by (rule URL_with_base_searchParams)
  then show ?thesis by (simp add: c copy_params_searchParams)
qed

theorem target_query_witness:
  "searchParams (targetUrl (hd (fst (handler down_platform
      (example_request ''GET'' models_url [])))))
     = [(''foo'', ''1''), (''bar'', ''2''), (''foo'', ''3'')]"
proof -
  have 1: "hd (fst (handler down_platform (example_request ''GET'' models_url [])))
      \<in> set (fst (handler down_platform (example_request ''GET'' models_url [])))"
    by (rule example_call_down) simp
  from target_query[OF 1 models_url_parsed] show ?thesis
    by (simp only: models_path_and_query)
qed

section \<open>The relay of the body\<close>

lemma pipe_step_order:
  "pipe_step s s' \<Longrightarrow>
     snd s' @ readable_queue (fst s') @ writable_queue (fst s') @ source (fst s')
     = snd s @ readable_queue (fst s) @ writable_queue (fst s) @ source (fst s)"
  by (induction rule: pipe_step.induct) simp_all

lemma pipe_step_bound:
  "pipe_step s s' \<Longrightarrow>
     length (writable_queue (fst s)) \<le> 1 \<and> length (readable_queue (fst s)) \<le> 1 \<Longrightarrow>
     length (writable_queue (fst s')) \<le> 1 \<and> length (readable_queue (fst s')) \<le> 1"
  by (induction rule: pipe_step.induct) simp_all

lemma pipe_run_invariant:
  assumes "pipe_run s s'"
  shows "snd s' @ readable_queue (fst s') @ writable_queue (fst s') @ source (fst s')
           = snd s @ readable_queue (fst s) @ writable_queue (fst s) @ source (fst s) \<and>
         (length (writable_queue (fst s)) \<le> 1 \<and> length (readable_queue (fst s)) \<le> 1 \<longrightarrow>
          length (writable_queue (fst s')) \<le> 1 \<and> length (readable_queue (fst s')) \<le> 1)"
  using assms unfolding pipe_run_def
proof (induction rule: rtranclp_induct)
  case base
  then show ?case by simp
next
  case (step y z)
  then show ?case
    using pipe_step_order[of y z] pipe_step_bound[of y z] by simp
qed

lemma pipe_progress:
  assumes "\<not> closed p"
  shows "\<exists>s. pipe_step (p, out) s"
proof (cases "readable_queue p")
  case (Cons c rs)
  then show ?thesis by (blast intro: pipe_step.read)
next
  case rq: Nil
  show ?thesis
  proof (cases "writable_queue p")
    case (Cons c ws)
    with rq show ?thesis by (blast intro: pipe_step.transform)
  next
    case wq: Nil
    with rq assms obtain c cs where "source p = c # cs"
      by (cases "source p") (auto simp: closed_def)
    with wq show ?thesis by (blast intro: pipe_step.pump)
  qed
qed

lemma pipe_step_decreases: "pipe_step s s' \<Longrightarrow> pipe_measure s' < pipe_measure s"
  by (induction rule: pipe_step.induct) (simp_all add: pipe_measure_def)

lemma pipe_run_step: "pipe_step a b \<Longrightarrow> pipe_run b c \<Longrightarrow> pipe_run a c"
  unfolding pipe_run_def by (rule converse_rtranclp_into_rtranclp)

lemma pipe_run_refl: "pipe_run a a"
  unfolding pipe_run_def by (rule rtranclp.rtrancl_refl)

lemma pipe_completes:
  "\<exists>p' out'. pipe_run s (p', out') \<and> closed p'"
proof (induction "pipe_measure s" arbitrary: s rule: less_induct)
  case less
  obtain p out where s: "s = (p, out)" by (cases s)
  show ?case
  proof (cases "closed p")
    case True
    then show ?thesis using s pipe_run_refl by blast
  next
    case False
    then obtain s' where st: "pipe_step s s'"
      using pipe_progress s by blast
    then have "pipe_measure s' < pipe_measure s"
      by (rule pipe_step_decreases)
    then obtain p' out' where "pipe_run s' (p', out')" "closed p'"
      using less.hyps by blast
    then show ?thesis using st pipe_run_step by blast
  qed
qed

lemma pipe_terminates: "wfP (pipe_step\<inverse>\<inverse>)"
proof -
  have "{(s', s). pipe_step s s'} \<subseteq> measure pipe_measure"
    using pipe_step_decreases by auto
  then have "wf {(s', s). pipe_step s s'}"
    by (rule wf_subset[OF wf_measure])
  then show ?thesis
    by (simp add: wfp_def conversep.simps)
qed

lemma closed_pipe: "closed p \<longleftrightarrow> p = pipeTo []"
  by (cases p) (auto simp: closed_def pipeTo_def)

text \<open>
  Claim C3, as the code has it. When the upstream response is one that \<open>new Response\<close>
  accepts with a body (a status from 200 to 599 that is no null body status, a reason
  phrase as status text) and has a body of the chunks \<open>chunks\<close>, the body of the handler's
  response is the readable side of the relay of these chunks. At every moment of every run
  of the relay, what the client has read, followed by what the two queues hold and by what
  is still unread upstream, is \<open>chunks\<close>: nothing is lost, altered or reordered. Each of the
  two queues holds at most one chunk, however many chunks there are, so the relay holds the
  whole body only if that has at most two chunks. Every run ends, a run that is not at its
  end can go on, and at the end the client has read exactly \<open>chunks\<close>, whose concatenation
  is the upstream body.
\<close>

theorem relay_body_roundtrip:
  assumes "call \<in> set (fst (handler pf request))"
    and "fetch pf call = Inr g"
    and "g_body g = Some chunks"
    and "200 \<le> g_status g" and "g_status g \<le> 599" and "\<not> null_body_status (g_status g)"
    and "reason_phrase (g_statusText g)"
  shows "\<exists>r. handler pf request = ([call], Inr r) \<and> r_body r = Readable (pipeTo chunks) \<and>
           (\<forall>p out. pipe_run (pipeTo chunks, []) (p, out) \<longrightarrow>
              out @ readable_queue p @ writable_queue p @ source p = chunks \<and>
              length (writable_queue p) \<le> 1 \<and> length (readable_queue p) \<le> 1 \<and>
              (2 < length chunks \<longrightarrow> readable_queue p @ writable_queue p \<noteq> chunks) \<and>
              (closed p \<longrightarrow> out = chunks \<and> concat out = concat chunks) \<and>
              (\<not> closed p \<longrightarrow> (\<exists>s. pipe_step (p, out) s)) \<and>
              (\<exists>p' out'. pipe_run (p, out) (p', out') \<and> closed p')) \<and>
           wfP (pipe_step\<inverse>\<inverse>)"
proof -
  let ?r = "\<lparr>r_body = Readable (pipeTo chunks),
             r_headers = fill (sort_and_combine (response_headers (g_headers g))),
             r_status = g_status g, r_statusText = g_statusText g\<rparr>"
  have "relay g = Inr ?r"
    using relay_accepted[of g] assms(3-7) by simp
  then have h: "handler pf request = ([call], Inr ?r)"
    using handler_relay[OF assms(1,2)] by simp
  have b: "r_body ?r = Readable (pipeTo chunks)"
    by simp
  have run: "out @ readable_queue p @ writable_queue p @ source p = chunks \<and>
              length (writable_queue p) \<le> 1 \<and> length (readable_queue p) \<le> 1 \<and>
              (2 < length chunks \<longrightarrow> readable_queue p @ writable_queue p \<noteq> chunks) \<and>
              (closed p \<longrightarrow> out = chunks \<and> concat out = concat chunks) \<and>
              (\<not> closed p \<longrightarrow> (\<exists>s. pipe_step (p, out) s)) \<and>
              (\<exists>p' out'. pipe_run (p, out) (p', out') \<and> closed p')"
    if r: "pipe_run (pipeTo chunks, []) (p, out)" for p out
  proof -
    from pipe_run_invariant[OF r]
    have o: "out @ readable_queue p @ writable_queue p @ source p = chunks"
      and l: "length (writable_queue p) \<le> 1 \<and> length (readable_queue p) \<le> 1"
      by (simp_all add: pipeTo_def)
    have c: "out = chunks \<and> concat out = concat chunks" if "closed p"
      using o that by (simp add: closed_def)
    have w: "readable_queue p @ writable_queue p \<noteq> chunks" if "2 < length chunks"
    proof
      assume "readable_queue p @ writable_queue p = chunks"
      then have "length chunks = length (readable_queue p) + length (writable_queue p)"
        by (metis length_append)
      with l that show False by simp
    qed
    show ?thesis
      using o l c w pipe_progress[of p out] pipe_completes[of "(p, out)"] by blast
  qed
  show ?thesis
    using h b run pipe_terminates by blast
qed

theorem relay_body_roundtrip_witness:
  "(\<exists>r. handler (proxy_platform (example_upstream (Some [''ab'', ''c''])))
           (example_request ''GET'' models_url [])
         = ([hd (fst (handler (proxy_platform (example_upstream (Some [''ab'', ''c''])))
                   (example_request ''GET'' models_url [])))], Inr r) \<and>
        r_body r = Readable (pipeTo [''ab'', ''c''])) \<and>
   pipe_run (pipeTo [''ab'', ''c''], []) (pipeTo [], [''ab'', ''c''])"
proof -
  let ?g = "example_upstream (Some [''ab'', ''c''])"
  let ?pf = "proxy_platform ?g"
  let ?req = "example_request ''GET'' models_url []"
  let ?c = "hd (fst (handler ?pf ?req))"
  have 1: "?c \<in> set (fst (handler ?pf ?req))"
    by (rule example_call) simp
  have 2: "fetch ?pf ?c = Inr ?g"
    by (simp add: proxy_platform_def)
  have 3: "g_body ?g = Some [''ab'', ''c'']"
    by (simp add: example_upstream_def)
  have 4: "200 \<le> g_status ?g" "g_status ?g \<le> 599" "\<not> null_body_status (g_status ?g)"
    "reason_phrase (g_statusText ?g)"
    by (simp_all add: example_upstream_def null_body_status_def reason_phrase_def)
  note t = relay_body_roundtrip[OF 1 2 3 4]
  from t have a: "\<exists>r. handler ?pf ?req = ([?c], Inr r) \<and> r_body r = Readable (pipeTo [''ab'', ''c''])"
    by blast
  from t have all: "\<forall>p out. pipe_run (pipeTo [''ab'', ''c''], []) (p, out) \<longrightarrow>
      (closed p \<longrightarrow> out = [''ab'', ''c'']) \<and> (\<exists>p' out'. pipe_run (p, out) (p', out') \<and> closed p')"
    by blast
  have "pipe_run (pipeTo [''ab'', ''c''], []) (pipeTo [''ab'', ''c''], [])"
    by (rule pipe_run_refl)
  with all obtain p' out' where r: "pipe_run (pipeTo [''ab'', ''c''], []) (p', out')" and c: "closed p'"
    by blast
  from all r c have "out' = [''ab'', ''c'']" by blast
  moreover from c have "p' = pipeTo []" by (simp add: closed_pipe)
  ultimately have "pipe_run (pipeTo [''ab'', ''c''], []) (pipeTo [], [''ab'', ''c''])"
    using r by simp
  with a show ?thesis by (rule conjI)
qed

text \<open>
  Claim C3 as stated has the relay never hold the full payload. For a body of the one
  chunk \<open>ab\<close> the relay, which starts before the response is returned, reads the chunk into
  its writable queue: it holds the whole body while the client has read nothing.
\<close>

theorem single_chunk_held_counterexample:
  "map_sum id r_body
     (snd (handler (proxy_platform (example_upstream (Some [''ab''])))
        (example_request ''GET'' models_url [])))
     = Inr (Readable (pipeTo [''ab''])) \<and>
   pipe_run (pipeTo [''ab''], [])
     (\<lparr>source = [], writable_queue = [''ab''], readable_queue = []\<rparr>, []) \<and>
   concat (writable_queue \<lparr>source = [], writable_queue = [''ab''], readable_queue = []\<rparr>)
     = concat [''ab'']"
proof -
  have 1: "map_sum id r_body
     (snd (handler (proxy_platform (example_upstream (Some [''ab''])))
        (example_request ''GET'' models_url [])))
     = Inr (Readable (pipeTo [''ab'']))"
    by code_simp
  have "pipe_step (pipeTo [''ab''], [])
     ((pipeTo [''ab''])\<lparr>source := [], writable_queue := [''ab'']\<rparr>, [])"
    by (rule pipe_step.pump) (simp_all add: pipeTo_def)
  then have "pipe_step (pipeTo [''ab''], [])
     (\<lparr>source = [], writable_queue = [''ab''], readable_queue = []\<rparr>, [])"
    by (simp add: pipeTo_def)
  then have 2: "pipe_run (pipeTo [''ab''], [])
     (\<lparr>source = [], writable_queue = [''ab''], readable_queue = []\<rparr>, [])"
    unfolding pipe_run_def by (rule r_into_rtranclp)
  from 1 2 show ?thesis by simp
qed

section \<open>The response headers\<close>

lemma named_fun: "named n = (\<lambda>h. lower (fst h) = lower n)"
  by (rule ext) (simp add: named_def)

lemma dropWhile_id: "xs = [] \<or> \<not> P (hd xs) \<Longrightarrow> dropWhile P xs = xs"
  by (cases xs) auto

lemma normalize_value_idem: "normalize_value (normalize_value v) = normalize_value v"
proof -
  let ?P = "http_whitespace"
  let ?a = "dropWhile ?P v"
  let ?b = "dropWhile ?P (rev ?a)"
  have b_hd: "?b = [] \<or> \<not> ?P (hd ?b)"
    using hd_dropWhile[of ?P "rev ?a"] by blast
  have b_last: "?b = [] \<or> \<not> ?P (last ?b)"
  proof (cases "?b = []")
    case True
    then show ?thesis by simp
  next
    case False
    have ne: "?a \<noteq> []"
    proof
      assume a: "?a = []"
      have "?b = []" unfolding a by simp
      with False show False ..
    qed
    have "last ?b = last (rev ?a)"
      using False by (metis takeWhile_dropWhile_id last_appendR)
    also have "\<dots> = hd ?a" using ne by (simp add: last_rev)
    finally show ?thesis using hd_dropWhile[of ?P v] ne by simp
  qed
  have 1: "dropWhile ?P (rev ?b) = rev ?b"
    using b_last by (intro dropWhile_id) (auto simp: hd_rev)
  have 2: "dropWhile ?P ?b = ?b"
    using b_hd by (intro dropWhile_id) auto
  show ?thesis
    unfolding normalize_value_def by (simp add: 1 2)
qed

lemma values_of_lower: "values_of hs (lower n) = values_of hs n"
  by (simp add: values_of_def named_fun lower_idem)

lemma append_h_values:
  "values_of (append_h hs k v) n = values_of hs n @ (if lower k = lower n then [normalize_value v] else [])"
proof (cases "filter (named k) hs")
  case Nil
  then show ?thesis by (simp add: append_h_def values_of_def named_def)
next
  case (Cons h t)
  then have "h \<in> set (filter (named k) hs)" by simp
  then have "lower (fst h) = lower k" by (simp add: named_def)
  then show ?thesis using Cons by (simp add: append_h_def values_of_def named_def)
qed

lemma fold_append_values:
  "values_of (fold (\<lambda>h acc. append_h acc (fst h) (snd h)) xs acc) n
     = values_of acc n @ map normalize_value (values_of xs n)"
proof (induction xs arbitrary: acc)
  case Nil
  then show ?case by (simp add: values_of_def)
next
  case (Cons x xs)
  show ?case
    by (simp add: Cons.IH append_h_values) (simp add: values_of_def named_def)
qed

lemma fill_values: "values_of (fill xs) n = map normalize_value (values_of xs n)"
  by (simp add: fill_def fold_append_values) (simp add: values_of_def)

lemma set_in_values:
  "values_of (set_in hs k v) n = (if lower k = lower n then [v] else values_of hs n)"
proof (induction hs)
  case Nil
  then show ?case by (simp add: values_of_def named_def)
next
  case (Cons h hs)
  show ?case
  proof (cases "named k h")
    case True
    have "filter (named n) (filter (\<lambda>h'. \<not> named k h') hs)
        = (if lower k = lower n then [] else filter (named n) hs)"
      by (induction hs) (auto simp: named_fun)
    then show ?thesis using True by (auto simp: values_of_def named_def)
  next
    case False
    then show ?thesis using Cons by (auto simp: values_of_def named_def)
  qed
qed

lemma set_h_values:
  "values_of (set_h hs k v) n = (if lower k = lower n then [normalize_value v] else values_of hs n)"
  by (simp add: set_h_def set_in_values)

lemma delete_h_values:
  "values_of (delete_h hs k) n = (if lower k = lower n then [] else values_of hs n)"
proof -
  have "filter (named n) (filter (\<lambda>h. \<not> named k h) hs)
        = (if lower k = lower n then [] else filter (named n) hs)"
    by (induction hs) (auto simp: named_fun)
  then show ?thesis by (simp add: delete_h_def values_of_def)
qed

lemma combined_combine: "combined hs m = combine m (values_of hs m)"
  by (simp add: combined_def combine_def)

lemma combine_names: "h \<in> set (combine m vs) \<Longrightarrow> fst h = m"
  by (auto simp: combine_def split: if_splits list.splits)

lemma filter_concat_one:
  assumes "distinct ns"
    and "\<And>m. m \<in> set ns \<Longrightarrow> filter P (f m) = (if m = k then f m else [])"
  shows "filter P (concat (map f ns)) = (if k \<in> set ns then f k else [])"
  using assms by (induction ns) auto

lemma sort_and_combine_named:
  "filter (named n) (sort_and_combine hs) = combine (lower n) (values_of hs n)"
proof -
  have one: "filter (named n) (combined hs m) = (if m = lower n then combined hs m else [])"
    if "m \<in> set (names_h hs)" for m
  proof -
    have lm: "lower m = m" using that by (rule names_h_lower)
    have "\<And>h. h \<in> set (combined hs m) \<Longrightarrow> named n h \<longleftrightarrow> m = lower n"
      using combine_names[of _ m] lm by (auto simp: combined_combine named_def)
    then show ?thesis
      by (auto simp: filter_empty_conv filter_id_conv)
  qed
  have "filter (named n) (sort_and_combine hs)
      = (if lower n \<in> set (names_h hs) then combined hs (lower n) else [])"
    unfolding sort_and_combine_def
    by (rule filter_concat_one[OF names_h_distinct one])
  also have "\<dots> = combine (lower n) (values_of hs n)"
  proof (cases "lower n \<in> set (names_h hs)")
    case True
    then show ?thesis by (simp add: combined_combine values_of_lower)
  next
    case False
    then have "values_of hs n = []"
      by (auto simp: names_h_iff values_of_def named_def filter_empty_conv)
    then show ?thesis using False by (simp add: combine_def)
  qed
  finally show ?thesis .
qed

lemma sort_and_combine_lower: "h \<in> set (sort_and_combine hs) \<Longrightarrow> lower (fst h) = fst h"
proof -
  assume "h \<in> set (sort_and_combine hs)"
  then obtain m where "m \<in> set (names_h hs)" "h \<in> set (combined hs m)"
    by (auto simp: sort_and_combine_def)
  then show ?thesis
    using combine_names[of h m] names_h_lower[of m hs] by (simp add: combined_combine)
qed

lemma fold_append_lower:
  assumes "\<forall>h \<in> set xs. lower (fst h) = fst h" and "\<forall>h \<in> set acc. lower (fst h) = fst h"
  shows "fold (\<lambda>h acc. append_h acc (fst h) (snd h)) xs acc
           = acc @ map (\<lambda>h. (fst h, normalize_value (snd h))) xs"
  using assms
proof (induction xs arbitrary: acc)
  case Nil
  then show ?case by simp
next
  case (Cons x xs)
  have a: "append_h acc (fst x) (snd x) = acc @ [(fst x, normalize_value (snd x))]"
  proof (cases "filter (named (fst x)) acc")
    case Nil
    then show ?thesis by (simp add: append_h_def)
  next
    case (Cons h t)
    then have "h \<in> set (filter (named (fst x)) acc)" by simp
    then have "h \<in> set acc" "lower (fst h) = lower (fst x)" by (simp_all add: named_def)
    then have "fst h = fst x" using Cons.prems \<open>\<forall>h\<in>set acc. lower (fst h) = fst h\<close>
      using \<open>\<forall>h\<in>set (x # xs). lower (fst h) = fst h\<close> by auto
    then show ?thesis using Cons by (simp add: append_h_def)
  qed
  have "fold (\<lambda>h acc. append_h acc (fst h) (snd h)) xs (acc @ [(fst x, normalize_value (snd x))])
      = (acc @ [(fst x, normalize_value (snd x))]) @ map (\<lambda>h. (fst h, normalize_value (snd h))) xs"
    using Cons.prems by (intro Cons.IH) auto
  then show ?case by (simp add: a)
qed

lemma fill_lower:
  "\<forall>h \<in> set xs. lower (fst h) = fst h \<Longrightarrow> fill xs = map (\<lambda>h. (fst h, normalize_value (snd h))) xs"
  using fold_append_lower[of xs "[]"] by (simp add: fill_def)

lemma fill_sorted_named:
  "filter (named n) (fill (sort_and_combine hs))
     = map (\<lambda>h. (fst h, normalize_value (snd h))) (combine (lower n) (values_of hs n))"
proof -
  have "fill (sort_and_combine hs) = map (\<lambda>h. (fst h, normalize_value (snd h))) (sort_and_combine hs)"
    using sort_and_combine_lower by (intro fill_lower) blast
  moreover have "filter (named n) (map (\<lambda>h. (fst h, normalize_value (snd h))) xs)
      = map (\<lambda>h. (fst h, normalize_value (snd h))) (filter (named n) xs)" for xs
    by (induction xs) (auto simp: named_def)
  ultimately show ?thesis by (simp add: sort_and_combine_named)
qed

lemma fill_sorted_lower: "h \<in> set (fill (sort_and_combine hs)) \<Longrightarrow> lower (fst h) = fst h"
proof -
  have "fill (sort_and_combine hs) = map (\<lambda>h. (fst h, normalize_value (snd h))) (sort_and_combine hs)"
    using sort_and_combine_lower by (intro fill_lower) blast
  moreover assume "h \<in> set (fill (sort_and_combine hs))"
  ultimately show ?thesis using sort_and_combine_lower by auto
qed

lemma special_names_lower:
  "lower ''content-encoding'' = ''content-encoding''"
  "lower ''content-length'' = ''content-length''"
  "lower ''alt-svc'' = ''alt-svc''"
  "lower ''access-control-allow-origin'' = ''access-control-allow-origin''"
  "lower ''access-control-allow-methods'' = ''access-control-allow-methods''"
  "lower ''access-control-allow-headers'' = ''access-control-allow-headers''"
  by code_simp+

lemma CORS_values_normal:
  "normalize_value ''*'' = ''*''"
  "normalize_value ''GET, POST, PUT, DELETE, OPTIONS'' = ''GET, POST, PUT, DELETE, OPTIONS''"
  "normalize_value ''Content-Type, Authorization, x-goog-api-key, x-goog-api-client''
     = ''Content-Type, Authorization, x-goog-api-key, x-goog-api-client''"
  by code_simp+

lemma sort_and_combine_values:
  "values_of (sort_and_combine hs) n = map snd (combine (lower n) (values_of hs n))"
  unfolding values_of_def[of "sort_and_combine hs"] sort_and_combine_named ..

lemma response_headers_values:
  "values_of (response_headers hs) n =
     (if lower n = ''alt-svc'' \<or> lower n = ''content-length'' \<or> lower n = ''content-encoding''
      then []
      else if lower n = ''access-control-allow-headers''
      then [''Content-Type, Authorization, x-goog-api-key, x-goog-api-client'']
      else if lower n = ''access-control-allow-methods''
      then [''GET, POST, PUT, DELETE, OPTIONS'']
      else if lower n = ''access-control-allow-origin'' then [''*'']
      else map normalize_value (map snd (combine (lower n) (values_of hs n))))"
  unfolding response_headers_def Let_def CORS_HEADERS_def Headers_copy_def
  by (simp add: delete_h_values set_h_values fill_values sort_and_combine_values
      special_names_lower CORS_values_normal eq_commute[of "''alt-svc''"]
      eq_commute[of "''content-length''"] eq_commute[of "''content-encoding''"]
      eq_commute[of "''access-control-allow-headers''"]
      eq_commute[of "''access-control-allow-methods''"]
      eq_commute[of "''access-control-allow-origin''"])

lemma iteration_value_nonempty:
  "acc \<noteq> [] \<Longrightarrow> iteration_value acc vs = join_values (acc # vs)"
proof (induction vs arbitrary: acc)
  case Nil
  then show ?case by simp
next
  case (Cons w ws)
  have "iteration_value acc (w # ws) = iteration_value (acc @ '', '' @ w) ws"
    using Cons.prems by simp
  also have "\<dots> = join_values ((acc @ '', '' @ w) # ws)"
    by (rule Cons.IH) simp
  also have "\<dots> = join_values (acc # w # ws)"
    by (cases ws) simp_all
  finally show ?case .
qed

lemma iteration_value_empty:
  "iteration_value [] vs = join_values (dropWhile (\<lambda>w. w = []) vs)"
proof (induction vs)
  case Nil
  then show ?case by simp
next
  case (Cons w ws)
  then show ?case by (cases "w = []") (simp_all add: iteration_value_nonempty)
qed

lemma iteration_value_eq:
  "iteration_value v vs = join_values (dropWhile (\<lambda>w. w = []) (v # vs))"
  using iteration_value_empty[of vs] iteration_value_nonempty[of v vs] by (cases "v = []") simp_all

lemma relayed_headers_iteration:
  "filter (named n) (fill (sort_and_combine (response_headers hs))) =
              (if lower n = ''content-encoding'' \<or> lower n = ''content-length'' \<or>
                  lower n = ''alt-svc''
               then []
               else if lower n = ''access-control-allow-origin'' then [(lower n, ''*'')]
               else if lower n = ''access-control-allow-methods''
               then [(lower n, ''GET, POST, PUT, DELETE, OPTIONS'')]
               else if lower n = ''access-control-allow-headers''
               then [(lower n, ''Content-Type, Authorization, x-goog-api-key, x-goog-api-client'')]
               else if lower n = ''set-cookie''
               then map (\<lambda>v. (lower n, normalize_value v)) (values_of hs n)
               else case values_of hs n of
                      [] \<Rightarrow> []
                    | v # vs \<Rightarrow>
                        [(lower n, normalize_value (iteration_value v vs))])"
  unfolding fill_sorted_named response_headers_values
  by (auto simp: combine_def normalize_value_idem CORS_values_normal o_def
      split: list.splits)

lemma relayed_headers_named:
  "filter (named n) (fill (sort_and_combine (response_headers hs))) =
              (if lower n = ''content-encoding'' \<or> lower n = ''content-length'' \<or>
                  lower n = ''alt-svc''
               then []
               else if lower n = ''access-control-allow-origin'' then [(lower n, ''*'')]
               else if lower n = ''access-control-allow-methods''
               then [(lower n, ''GET, POST, PUT, DELETE, OPTIONS'')]
               else if lower n = ''access-control-allow-headers''
               then [(lower n, ''Content-Type, Authorization, x-goog-api-key, x-goog-api-client'')]
               else if lower n = ''set-cookie''
               then map (\<lambda>v. (lower n, normalize_value v)) (values_of hs n)
               else case values_of hs n of
                      [] \<Rightarrow> []
                    | v # vs \<Rightarrow>
                        [(lower n,
                          normalize_value (join_values (dropWhile (\<lambda>w. w = []) (v # vs))))])"
  by (simp only: relayed_headers_iteration iteration_value_eq)

text \<open>
  Claim C4, as the code has it. When \<open>fetch\<close> resolves with a response that \<open>new Response\<close>
  accepts, the headers of the handler's response are named in lower case, and for every
  name: none for \<open>content-encoding\<close>, \<open>content-length\<close> and \<open>alt-svc\<close>; for each of the three
  CORS names exactly one header with the fixed value, whatever the upstream sent; for
  \<open>set-cookie\<close> one header per upstream value; for any other name that the upstream sent
  exactly one header, whose value is the upstream's values of that name, in order and
  without the empty values that come first, joined with a comma and a space, HTTP
  whitespace trimmed at both ends. This is the upstream's value when the name occurs once.
\<close>

theorem relay_headers:
  assumes "call \<in> set (fst (handler pf request))" and "fetch pf call = Inr g"
    and "200 \<le> g_status g" and "g_status g \<le> 599" and "reason_phrase (g_statusText g)"
    and "g_body g \<noteq> None \<longrightarrow> \<not> null_body_status (g_status g)"
  shows "\<exists>r. handler pf request = ([call], Inr r) \<and>
           (\<forall>h \<in> set (r_headers r). lower (fst h) = fst h) \<and>
           (\<forall>n. filter (named n) (r_headers r) =
              (if lower n = ''content-encoding'' \<or> lower n = ''content-length'' \<or>
                  lower n = ''alt-svc''
               then []
               else if lower n = ''access-control-allow-origin'' then [(lower n, ''*'')]
               else if lower n = ''access-control-allow-methods''
               then [(lower n, ''GET, POST, PUT, DELETE, OPTIONS'')]
               else if lower n = ''access-control-allow-headers''
               then [(lower n, ''Content-Type, Authorization, x-goog-api-key, x-goog-api-client'')]
               else if lower n = ''set-cookie''
               then map (\<lambda>v. (lower n, normalize_value v)) (values_of (g_headers g) n)
               else case values_of (g_headers g) n of
                      [] \<Rightarrow> []
                    | v # vs \<Rightarrow>
                        [(lower n,
                          normalize_value (join_values (dropWhile (\<lambda>w. w = []) (v # vs))))])) \<and>
           (\<forall>n v. lower n \<notin> {''content-encoding'', ''content-length'', ''alt-svc'',
                               ''access-control-allow-origin'', ''access-control-allow-methods'',
                               ''access-control-allow-headers''} \<longrightarrow>
                  values_of (g_headers g) n = [v] \<longrightarrow> normalize_value v = v \<longrightarrow>
                  filter (named n) (r_headers r) = [(lower n, v)])"
proof -
  let ?hs = "fill (sort_and_combine (response_headers (g_headers g)))"
  let ?r = "\<lparr>r_body = (case g_body g of None \<Rightarrow> Null | Some chunks \<Rightarrow> Readable (pipeTo chunks)),
             r_headers = ?hs, r_status = g_status g, r_statusText = g_statusText g\<rparr>"
  have "relay g = Inr ?r"
    using assms(3-6) by (rule relay_accepted)
  then have h: "handler pf request = ([call], Inr ?r)"
    using handler_relay[OF assms(1,2)] by simp
  have hs: "r_headers ?r = ?hs"
    by simp
  have l: "\<forall>h \<in> set (r_headers ?r). lower (fst h) = fst h"
    unfolding hs using fill_sorted_lower by blast
  have s: "filter (named n) (r_headers ?r) = [(lower n, v)]"
    if "lower n \<notin> {''content-encoding'', ''content-length'', ''alt-svc'',
                               ''access-control-allow-origin'', ''access-control-allow-methods'',
                               ''access-control-allow-headers''}"
      and "values_of (g_headers g) n = [v]" and "normalize_value v = v" for n v
    using that unfolding hs relayed_headers_named by (cases "v = []") simp_all
  have a: "\<forall>n. filter (named n) (r_headers ?r) =
              (if lower n = ''content-encoding'' \<or> lower n = ''content-length'' \<or>
                  lower n = ''alt-svc''
               then []
               else if lower n = ''access-control-allow-origin'' then [(lower n, ''*'')]
               else if lower n = ''access-control-allow-methods''
               then [(lower n, ''GET, POST, PUT, DELETE, OPTIONS'')]
               else if lower n = ''access-control-allow-headers''
               then [(lower n, ''Content-Type, Authorization, x-goog-api-key, x-goog-api-client'')]
               else if lower n = ''set-cookie''
               then map (\<lambda>v. (lower n, normalize_value v)) (values_of (g_headers g) n)
               else case values_of (g_headers g) n of
                      [] \<Rightarrow> []
                    | v # vs \<Rightarrow>
                        [(lower n,
                          normalize_value (join_values (dropWhile (\<lambda>w. w = []) (v # vs))))])"
    unfolding hs relayed_headers_named by simp
  show ?thesis
    using h l s a by blast
qed

theorem relay_headers_witness:
  "\<exists>r. handler (proxy_platform (example_upstream None)) (example_request ''GET'' models_url [])
          = ([hd (fst (handler (proxy_platform (example_upstream None))
                  (example_request ''GET'' models_url [])))], Inr r) \<and>
       filter (named ''X-Custom'') (r_headers r) = [(''x-custom'', ''keep'')] \<and>
       filter (named ''content-encoding'') (r_headers r) = [] \<and>
       filter (named ''content-length'') (r_headers r) = [] \<and>
       filter (named ''alt-svc'') (r_headers r) = [] \<and>
       filter (named ''access-control-allow-origin'') (r_headers r)
         = [(''access-control-allow-origin'', ''*'')]"
proof -
  let ?g = "example_upstream None"
  let ?pf = "proxy_platform ?g"
  let ?req = "example_request ''GET'' models_url []"
  let ?c = "hd (fst (handler ?pf ?req))"
  have 1: "?c \<in> set (fst (handler ?pf ?req))"
    by (rule example_call) simp
  have 2: "fetch ?pf ?c = Inr ?g"
    by (simp add: proxy_platform_def)
  have 3: "200 \<le> g_status ?g" "g_status ?g \<le> 599" "reason_phrase (g_statusText ?g)"
    "g_body ?g \<noteq> None \<longrightarrow> \<not> null_body_status (g_status ?g)"
    by (simp_all add: example_upstream_def reason_phrase_def)
  have x: "lower ''X-Custom'' = ''x-custom''"
    by code_simp
  have v: "values_of (g_headers ?g) ''X-Custom'' = [''keep'']"
    by code_simp
  have n: "normalize_value ''keep'' = ''keep''"
    by code_simp
  from relay_headers[OF 1 2 3] obtain r where
    h: "handler ?pf ?req = ([?c], Inr r)" and
    a: "\<And>n. filter (named n) (r_headers r) =
              (if lower n = ''content-encoding'' \<or> lower n = ''content-length'' \<or>
                  lower n = ''alt-svc''
               then []
               else if lower n = ''access-control-allow-origin'' then [(lower n, ''*'')]
               else if lower n = ''access-control-allow-methods''
               then [(lower n, ''GET, POST, PUT, DELETE, OPTIONS'')]
               else if lower n = ''access-control-allow-headers''
               then [(lower n, ''Content-Type, Authorization, x-goog-api-key, x-goog-api-client'')]
               else if lower n = ''set-cookie''
               then map (\<lambda>v. (lower n, normalize_value v)) (values_of (g_headers ?g) n)
               else case values_of (g_headers ?g) n of
                      [] \<Rightarrow> []
                    | v # vs \<Rightarrow>
                        [(lower n,
                          normalize_value (join_values (dropWhile (\<lambda>w. w = []) (v # vs))))])"
    by blast
  have "filter (named ''X-Custom'') (r_headers r) = [(''x-custom'', ''keep'')]"
    unfolding a x v by (simp add: n)
  moreover have "filter (named ''content-encoding'') (r_headers r) = []"
    "filter (named ''content-length'') (r_headers r) = []"
    "filter (named ''alt-svc'') (r_headers r) = []"
    "filter (named ''access-control-allow-origin'') (r_headers r)
         = [(''access-control-allow-origin'', ''*'')]"
    unfolding a special_names_lower by simp_all
  ultimately show ?thesis using h by blast
qed

text \<open>
  Claim C4 as stated keeps every other upstream header unchanged. An upstream response with
  two \<open>x-custom\<close> headers, of the values \<open>a\<close> and \<open>b\<close>, is relayed with one \<open>x-custom\<close> header
  of the value \<open>a, b\<close>.
\<close>

theorem repeated_response_header_counterexample:
  "snd (handler
     (proxy_platform \<lparr>g_status = 200, g_statusText = ''OK'',
                       g_headers = [(''x-custom'', ''a''), (''x-custom'', ''b'')],
                       g_body = None\<rparr>)
     (example_request ''GET'' models_url []))
   = Inr \<lparr>r_body = Null,
          r_headers =
            [(''access-control-allow-headers'',
              ''Content-Type, Authorization, x-goog-api-key, x-goog-api-client''),
             (''access-control-allow-methods'', ''GET, POST, PUT, DELETE, OPTIONS''),
             (''access-control-allow-origin'', ''*''),
             (''x-custom'', ''a, b'')],
          r_status = 200, r_statusText = ''OK''\<rparr>"
  by code_simp

end
